theory Spec2Isabelle
  imports Main "HOL-Library.Sublist"
begin

section \<open>The computer-using agent of web-eval-agent\<close>

text \<open>
  A shallow embedding of \<^verbatim>\<open>webEvalAgent/src/cua_integration.py\<close> (class \<^verbatim>\<open>OpenAICUA\<close>:
  \<^verbatim>\<open>capture_screenshot\<close>, \<^verbatim>\<open>execute_action\<close>, \<^verbatim>\<open>run_task\<close>) and of
  \<^verbatim>\<open>handle_computer_action\<close> of \<^verbatim>\<open>webEvalAgent/src/openai_cua.py\<close>.

  The program talks to two collaborators it does not control: the browser page
  (Playwright) and the reasoning service (HTTP). Both are modelled by an environment
  \<open>env\<close> of oracle functions that may depend on everything that happened before. Every
  effect of the program (a log line, a page operation, a sleep, a request with its
  reply) is appended to a trace of events, and every Python exception is a value.
\<close>

subsection \<open>Values, actions and exceptions\<close>

text \<open>
  A parameter of an action dictionary: Python \<^verbatim>\<open>None\<close>, an integer, a string, a list of
  key names or a list of path points. (JSON floats and nested dictionaries other than
  path points are not modelled.)
\<close>

datatype pval = PNone | PInt int | PStr string | PKeys "string list" | PPath "(int \<times> int) list"

text \<open>An action is a Python dict: an association list from keys to values.\<close>

type_synonym action = "(string \<times> pval) list"

text \<open>\<^verbatim>\<open>action.get(k, d)\<close>.\<close>

definition get :: "action \<Rightarrow> string \<Rightarrow> pval \<Rightarrow> pval" where
  "get a k d = (case map_of a k of None \<Rightarrow> d | Some v \<Rightarrow> v)"

datatype exn_kind =
  ValueError | TypeError | AttributeError | HTTPStatusError | RequestError
  | JSONDecodeError | PlaywrightError

datatype exn = Exn exn_kind string

text \<open>\<^verbatim>\<open>str(e)\<close>.\<close>

fun str :: "exn \<Rightarrow> string" where
  "str (Exn k m) = m"

text \<open>\<^verbatim>\<open>len(v)\<close> and \<^verbatim>\<open>v[:50]\<close>: defined on strings and lists, a TypeError otherwise.\<close>

fun py_len :: "pval \<Rightarrow> exn + nat" where
  "py_len (PStr s) = Inr (length s)"
| "py_len (PKeys ks) = Inr (length ks)"
| "py_len (PPath ps) = Inr (length ps)"
| "py_len PNone = Inl (Exn TypeError ''object of type NoneType has no len()'')"
| "py_len (PInt i) = Inl (Exn TypeError ''object of type int has no len()'')"

fun py_slice :: "pval \<Rightarrow> nat \<Rightarrow> exn + pval" where
  "py_slice (PStr s) n = Inr (PStr (take n s))"
| "py_slice (PKeys ks) n = Inr (PKeys (take n ks))"
| "py_slice (PPath ps) n = Inr (PPath (take n ps))"
| "py_slice PNone n = Inl (Exn TypeError ''NoneType object is not subscriptable'')"
| "py_slice (PInt i) n = Inl (Exn TypeError ''int object is not subscriptable'')"

text \<open>The decimal text of an integer, as an f-string prints it.\<close>

fun str_nat :: "nat \<Rightarrow> string" where
  "str_nat n =
     (if n < 10 then [char_of (48 + n)] else str_nat (n div 10) @ [char_of (48 + n mod 10)])"

declare str_nat.simps [simp del]

definition str_int :: "int \<Rightarrow> string" where
  "str_int i = (if i < 0 then CHR ''-'' # str_nat (nat (- i)) else str_nat (nat i))"

subsection \<open>The documents of the reasoning service\<close>

record safety_check =
  check_id :: "string option"
  check_code :: "string option"
  message :: "string option"

record computer_call =
  call_id :: "string option"
  call_action :: "action option"
  pending_safety_checks :: "safety_check list"

text \<open>
  An output item, by its \<^verbatim>\<open>type\<close>: a reasoning item with its summary (each entry its
  \<^verbatim>\<open>text\<close> when it is a dict that has one), a computer call, a text item with its
  \<^verbatim>\<open>text\<close> when present, a message with the (type, text) pairs of its content, or an
  item of any other type.
\<close>

datatype item =
  Reasoning "string option list"
  | ComputerCall computer_call
  | TextItem "string option"
  | Message "(string \<times> string) list"
  | OtherItem string

record response =
  response_id :: "string option"
  response_output :: "item list"

record tool =
  tool_type :: string
  tool_display_width :: int
  tool_display_height :: int
  tool_environment :: string

datatype request_input =
  UserMessage string string
  | CallOutput "string option" string "string option" "safety_check list option"

text \<open>
  \<open>UserMessage task image_url\<close> is the first request's input;
  \<open>CallOutput call_id image_url current_url acknowledged_safety_checks\<close> is a
  \<^verbatim>\<open>computer_call_output\<close>, its last field \<open>None\<close> when the dict has no such key.
\<close>

fun acknowledged_safety_checks :: "request_input \<Rightarrow> safety_check list option" where
  "acknowledged_safety_checks (UserMessage t i) = None"
| "acknowledged_safety_checks (CallOutput c i u a) = a"

record request =
  req_model :: string
  req_previous_response_id :: "string option"
  req_tools :: "tool list"
  req_input :: "request_input list"
  req_reasoning_summary :: "string option"
  req_truncation :: string

text \<open>
  What a POST comes back with: a status code with the body parsed as JSON (\<open>None\<close>
  when it is not JSON), or no response at all (timeout, connection error).
\<close>

datatype http_reply = HttpResponse nat "response option" | NoResponse string

subsection \<open>Events and the environment\<close>

datatype page_op =
  Goto string
  | Screenshot string
  | MouseClick pval pval pval
  | MouseDblClick pval pval
  | MouseMove pval pval
  | MouseDown
  | MouseUp
  | KeyboardType pval
  | KeyboardPress string
  | ScrollBy pval pval

datatype log_type = Agent | Status

text \<open>The messages of \<^verbatim>\<open>send_log\<close>, one constructor for each format string.\<close>

datatype log_msg =
  Navigated string
  | StartingTask string
  | CUAReasoning string
  | CUAMessage string
  | TaskCompletedNoMoreActions
  | SafetyCheck string
  | Clicked pval pval pval
  | Typed pval bool
  | PressedKeys "string list"
  | Scrolled pval pval pval pval
  | Waited
  | ScreenshotRequested
  | UnknownActionType pval
  | FailedToExecute pval string
  | FailedToCapture string
  | TaskFailed string
  | ClickedAt pval pval
  | TypedStart pval
  | ScrolledBy pval pval
  | PressedKeyList pval

datatype event =
  Log log_msg log_type
  | Page page_op
  | Sleep nat
  | Post request http_reply

record env =
  page_result :: "event list \<Rightarrow> page_op \<Rightarrow> exn option"
  screenshot_data :: "event list \<Rightarrow> string"
  page_url :: "event list \<Rightarrow> string"
  http_post :: "event list \<Rightarrow> request \<Rightarrow> http_reply"
  str_upper :: "string \<Rightarrow> string"

text \<open>
  \<open>Sleep n\<close> is an \<^verbatim>\<open>asyncio.sleep\<close> of \<open>n\<close> milliseconds. The last four messages are
  those of \<^verbatim>\<open>openai_cua.py\<close>.
  \<open>page_result env tr op\<close> is the exception a page operation raises after the events
  \<open>tr\<close>, \<open>None\<close> when it succeeds; \<open>screenshot_data\<close> is the base64 text of the
  screenshot taken then, \<open>page_url\<close> the page's URL, \<open>http_post\<close> the service's reply.
  \<open>str_upper\<close> is \<^verbatim>\<open>str.upper\<close> of the Python runtime: it follows the case tables of
  Unicode, which are no part of this program, so that nothing is assumed of it.
\<close>

text \<open>\<^verbatim>\<open>send_log\<close> swallows its own exceptions: it only adds a line.\<close>

definition send_log :: "log_msg \<Rightarrow> log_type \<Rightarrow> event list \<Rightarrow> event list" where
  "send_log m t tr = tr @ [Log m t]"

text \<open>One awaited page operation: the exception it raises, and the trace with it.\<close>

definition page_do :: "env \<Rightarrow> page_op \<Rightarrow> event list \<Rightarrow> exn option \<times> event list" where
  "page_do env op tr = (page_result env tr op, tr @ [Page op])"

subsection \<open>Configuration and state\<close>

record CUAConfig =
  model :: string
  display_width :: int
  display_height :: int
  environment :: string
  reasoning_summary :: string
  truncation :: string
  max_iterations :: int
  timeout_seconds :: int

definition CUAConfig_default :: CUAConfig where
  "CUAConfig_default =
     \<lparr>model = ''computer-use-preview'', display_width = 1024, display_height = 768,
      environment = ''browser'', reasoning_summary = ''concise'', truncation = ''auto'',
      max_iterations = 50, timeout_seconds = 300\<rparr>"

record screenshot_entry =
  step :: int
  screenshot :: string
  action :: "action option"

record CUAState =
  page :: "nat option"
  cdp_session :: "nat option"
  previous_response_id :: "string option"
  screenshots :: "screenshot_entry list"
  completed :: bool
  error :: "string option"
  iteration_count :: int

definition CUAState_default :: CUAState where
  "CUAState_default =
     \<lparr>page = None, cdp_session = None, previous_response_id = None, screenshots = [],
      completed = False, error = None, iteration_count = 0\<rparr>"

record OpenAICUA =
  api_key :: string
  config :: CUAConfig
  state :: CUAState
  tool_call_id :: "string option"

text \<open>\<^verbatim>\<open>OpenAICUA.__init__\<close>: \<^verbatim>\<open>config or CUAConfig()\<close>, and a new \<^verbatim>\<open>CUAState()\<close>.\<close>

definition OpenAICUA_init :: "string \<Rightarrow> CUAConfig option \<Rightarrow> string option \<Rightarrow> OpenAICUA" where
  "OpenAICUA_init key cfg tcid =
     \<lparr>api_key = key, config = (case cfg of None \<Rightarrow> CUAConfig_default | Some c \<Rightarrow> c),
      state = CUAState_default, tool_call_id = tcid\<rparr>"

text \<open>
  \<^verbatim>\<open>initialize_browser\<close>, when the CDP session opens (otherwise it re-raises and the
  caller never reaches \<^verbatim>\<open>run_task\<close>).
\<close>

definition initialize_browser :: "OpenAICUA \<Rightarrow> nat \<Rightarrow> nat \<Rightarrow> OpenAICUA" where
  "initialize_browser self p cdp =
     self\<lparr>state := (state self)\<lparr>page := Some p, cdp_session := Some cdp\<rparr>\<rparr>"

subsection \<open>capture_screenshot\<close>

definition capture_screenshot :: "env \<Rightarrow> CUAState \<Rightarrow> event list \<Rightarrow> (exn + string) \<times> event list" where
  "capture_screenshot env st tr =
     (if page st = None then (Inl (Exn ValueError ''Browser page not initialized''), tr)
      else
        (case page_do env (Screenshot ''jpeg'') tr of
           (Some e, tr1) \<Rightarrow> (Inl e, send_log (FailedToCapture (str e)) Status tr1)
         | (None, tr1) \<Rightarrow> (Inr (screenshot_data env tr), tr1)))"

subsection \<open>execute_action\<close>

text \<open>The key a \<^verbatim>\<open>keypress\<close> sends for a key name.\<close>

definition map_key :: "env \<Rightarrow> string \<Rightarrow> string" where
  "map_key env key =
     (if str_upper env key = ''ENTER'' then ''Enter''
      else if str_upper env key = ''SPACE'' then '' ''
      else if str_upper env key = ''TAB'' then ''Tab''
      else if str_upper env key = ''ESCAPE'' then ''Escape''
      else key)"

text \<open>The loop \<^verbatim>\<open>for key in keys\<close>, left at the first key press that raises.\<close>

fun press_keys :: "env \<Rightarrow> string list \<Rightarrow> event list \<Rightarrow> exn option \<times> event list" where
  "press_keys env [] tr = (None, tr)"
| "press_keys env (key # keys) tr =
     (case page_do env (KeyboardPress (map_key env key)) tr of
        (Some e, tr1) \<Rightarrow> (Some e, tr1)
      | (None, tr1) \<Rightarrow> press_keys env keys tr1)"

text \<open>
  The body of the \<^verbatim>\<open>try\<close> of \<^verbatim>\<open>execute_action\<close>, one function for each branch of the
  chain on \<^verbatim>\<open>action_type\<close>.
\<close>

definition do_click :: "env \<Rightarrow> action \<Rightarrow> event list \<Rightarrow> exn option \<times> event list" where
  "do_click env a tr =
     (let x = get a ''x'' (PInt 0); y = get a ''y'' (PInt 0);
          button = get a ''button'' (PStr ''left'')
      in case page_do env (MouseClick x y button) tr of
           (Some e, tr1) \<Rightarrow> (Some e, tr1)
         | (None, tr1) \<Rightarrow> (None, send_log (Clicked x y button) Agent tr1))"

definition do_type :: "env \<Rightarrow> action \<Rightarrow> event list \<Rightarrow> exn option \<times> event list" where
  "do_type env a tr =
     (let txt = get a ''text'' (PStr '''')
      in case page_do env (KeyboardType txt) tr of
           (Some e, tr1) \<Rightarrow> (Some e, tr1)
         | (None, tr1) \<Rightarrow>
             (case py_slice txt 50 of
                Inl e \<Rightarrow> (Some e, tr1)
              | Inr shown \<Rightarrow>
                  (case py_len txt of
                     Inl e \<Rightarrow> (Some e, tr1)
                   | Inr n \<Rightarrow> (None, send_log (Typed shown (50 < n)) Agent tr1))))"

text \<open>
  \<^verbatim>\<open>for key in keys\<close> iterates a list, or the characters of a string; \<^verbatim>\<open>key.upper()\<close>
  fails on a path point, and \<^verbatim>\<open>', '.join(keys)\<close> needs strings.
\<close>

definition do_keypress :: "env \<Rightarrow> action \<Rightarrow> event list \<Rightarrow> exn option \<times> event list" where
  "do_keypress env a tr =
     (case get a ''keys'' (PKeys []) of
        PKeys ks \<Rightarrow>
          (case press_keys env ks tr of
             (Some e, tr1) \<Rightarrow> (Some e, tr1)
           | (None, tr1) \<Rightarrow> (None, send_log (PressedKeys ks) Agent tr1))
      | PStr s \<Rightarrow>
          (case press_keys env (map (\<lambda>c. [c]) s) tr of
             (Some e, tr1) \<Rightarrow> (Some e, tr1)
           | (None, tr1) \<Rightarrow> (None, send_log (PressedKeys (map (\<lambda>c. [c]) s)) Agent tr1))
      | PPath [] \<Rightarrow> (None, send_log (PressedKeys []) Agent tr)
      | PPath (p # ps) \<Rightarrow> (Some (Exn AttributeError ''dict object has no attribute upper''), tr)
      | PNone \<Rightarrow> (Some (Exn TypeError ''NoneType object is not iterable''), tr)
      | PInt i \<Rightarrow> (Some (Exn TypeError ''int object is not iterable''), tr))"

definition do_scroll :: "env \<Rightarrow> action \<Rightarrow> event list \<Rightarrow> exn option \<times> event list" where
  "do_scroll env a tr =
     (let x = get a ''x'' (PInt 0); y = get a ''y'' (PInt 0);
          scroll_x = get a ''scrollX'' (PInt 0); scroll_y = get a ''scrollY'' (PInt 0)
      in case page_do env (MouseMove x y) tr of
           (Some e, tr1) \<Rightarrow> (Some e, tr1)
         | (None, tr1) \<Rightarrow>
             (case page_do env (ScrollBy scroll_x scroll_y) tr1 of
                (Some e, tr2) \<Rightarrow> (Some e, tr2)
              | (None, tr2) \<Rightarrow> (None, send_log (Scrolled scroll_x scroll_y x y) Agent tr2)))"

definition action_body :: "env \<Rightarrow> action \<Rightarrow> event list \<Rightarrow> exn option \<times> event list" where
  "action_body env a tr =
     (let action_type = get a ''type'' PNone
      in if action_type = PStr ''click'' then do_click env a tr
         else if action_type = PStr ''type'' then do_type env a tr
         else if action_type = PStr ''keypress'' then do_keypress env a tr
         else if action_type = PStr ''scroll'' then do_scroll env a tr
         else if action_type = PStr ''wait'' then (None, send_log Waited Agent (tr @ [Sleep 2000]))
         else if action_type = PStr ''screenshot'' then (None, send_log ScreenshotRequested Agent tr)
         else (None, send_log (UnknownActionType action_type) Status tr))"

text \<open>
  \<^verbatim>\<open>execute_action\<close>: a ValueError without a page; an exception of the body is logged
  and raised again.
\<close>

definition execute_action :: "env \<Rightarrow> CUAState \<Rightarrow> action \<Rightarrow> event list \<Rightarrow> exn option \<times> event list" where
  "execute_action env st a tr =
     (if page st = None then (Some (Exn ValueError ''Browser page not initialized''), tr)
      else
        (case action_body env a tr of
           (Some e, tr1) \<Rightarrow>
             (Some e, send_log (FailedToExecute (get a ''type'' PNone) (str e)) Status tr1)
         | (None, tr1) \<Rightarrow> (None, tr1)))"

subsection \<open>handle_computer_action of openai_cua.py\<close>

text \<open>
  The second client, \<^verbatim>\<open>openai_cua.py\<close>, has its own executor. Its page always exists,
  nothing is caught, and its methods log with other words. The methods are prefixed
  with \<open>openai\<close> here.
\<close>

definition openai_click :: "env \<Rightarrow> pval \<Rightarrow> pval \<Rightarrow> pval \<Rightarrow> event list \<Rightarrow> exn option \<times> event list" where
  "openai_click env x y button tr =
     (case page_do env (MouseClick x y button) tr of
        (Some e, tr1) \<Rightarrow> (Some e, tr1)
      | (None, tr1) \<Rightarrow> (None, send_log (ClickedAt x y) Status tr1))"

definition openai_type :: "env \<Rightarrow> pval \<Rightarrow> event list \<Rightarrow> exn option \<times> event list" where
  "openai_type env txt tr =
     (case page_do env (KeyboardType txt) tr of
        (Some e, tr1) \<Rightarrow> (Some e, tr1)
      | (None, tr1) \<Rightarrow>
          (case py_slice txt 20 of
             Inl e \<Rightarrow> (Some e, tr1)
           | Inr shown \<Rightarrow> (None, send_log (TypedStart shown) Status tr1)))"

definition openai_scroll ::
  "env \<Rightarrow> pval \<Rightarrow> pval \<Rightarrow> pval \<Rightarrow> pval \<Rightarrow> event list \<Rightarrow> exn option \<times> event list" where
  "openai_scroll env x y scroll_x scroll_y tr =
     (case page_do env (MouseMove x y) tr of
        (Some e, tr1) \<Rightarrow> (Some e, tr1)
      | (None, tr1) \<Rightarrow>
          (case page_do env (ScrollBy scroll_x scroll_y) tr1 of
             (Some e, tr2) \<Rightarrow> (Some e, tr2)
           | (None, tr2) \<Rightarrow> (None, send_log (ScrolledBy scroll_x scroll_y) Status tr2)))"

text \<open>\<^verbatim>\<open>for key in keys: await self.page.keyboard.press(key)\<close>, the keys as they are.\<close>

fun openai_press :: "env \<Rightarrow> string list \<Rightarrow> event list \<Rightarrow> exn option \<times> event list" where
  "openai_press env [] tr = (None, tr)"
| "openai_press env (key # keys) tr =
     (case page_do env (KeyboardPress key) tr of
        (Some e, tr1) \<Rightarrow> (Some e, tr1)
      | (None, tr1) \<Rightarrow> openai_press env keys tr1)"

definition openai_keypress :: "env \<Rightarrow> pval \<Rightarrow> event list \<Rightarrow> exn option \<times> event list" where
  "openai_keypress env keys tr =
     (case keys of
        PKeys ks \<Rightarrow>
          (case openai_press env ks tr of
             (Some e, tr1) \<Rightarrow> (Some e, tr1)
           | (None, tr1) \<Rightarrow> (None, send_log (PressedKeyList keys) Status tr1))
      | PStr s \<Rightarrow>
          (case openai_press env (map (\<lambda>c. [c]) s) tr of
             (Some e, tr1) \<Rightarrow> (Some e, tr1)
           | (None, tr1) \<Rightarrow> (None, send_log (PressedKeyList keys) Status tr1))
      | PPath [] \<Rightarrow> (None, send_log (PressedKeyList keys) Status tr)
      | PPath (p # ps) \<Rightarrow> (Some (Exn TypeError ''key: expected string, got object''), tr)
      | PNone \<Rightarrow> (Some (Exn TypeError ''NoneType object is not iterable''), tr)
      | PInt i \<Rightarrow> (Some (Exn TypeError ''int object is not iterable''), tr))"

text \<open>\<^verbatim>\<open>await asyncio.sleep(ms / 1000)\<close>; a negative delay does not sleep.\<close>

definition openai_wait :: "pval \<Rightarrow> event list \<Rightarrow> exn option \<times> event list" where
  "openai_wait ms tr =
     (case ms of
        PInt i \<Rightarrow> (None, tr @ [Sleep (nat i)])
      | _ \<Rightarrow> (Some (Exn TypeError ''unsupported operand type(s) for /''), tr))"

definition openai_move :: "env \<Rightarrow> pval \<Rightarrow> pval \<Rightarrow> event list \<Rightarrow> exn option \<times> event list" where
  "openai_move env x y tr = page_do env (MouseMove x y) tr"

definition openai_double_click :: "env \<Rightarrow> pval \<Rightarrow> pval \<Rightarrow> event list \<Rightarrow> exn option \<times> event list" where
  "openai_double_click env x y tr = page_do env (MouseDblClick x y) tr"

text \<open>The loop \<^verbatim>\<open>for point in path[1:]\<close> of \<^verbatim>\<open>drag\<close>.\<close>

fun drag_moves :: "env \<Rightarrow> (int \<times> int) list \<Rightarrow> event list \<Rightarrow> exn option \<times> event list" where
  "drag_moves env [] tr = (None, tr)"
| "drag_moves env ((x, y) # points) tr =
     (case page_do env (MouseMove (PInt x) (PInt y)) tr of
        (Some e, tr1) \<Rightarrow> (Some e, tr1)
      | (None, tr1) \<Rightarrow> drag_moves env points tr1)"

text \<open>
  \<^verbatim>\<open>drag\<close>: nothing for a path that is falsy (an empty list or string, \<^verbatim>\<open>None\<close>, 0);
  \<^verbatim>\<open>path[0]["x"]\<close> is a TypeError on anything but a list of points.
\<close>

definition openai_drag :: "env \<Rightarrow> pval \<Rightarrow> event list \<Rightarrow> exn option \<times> event list" where
  "openai_drag env path tr =
     (case path of
        PPath [] \<Rightarrow> (None, tr)
      | PPath ((x, y) # points) \<Rightarrow>
          (case page_do env (MouseMove (PInt x) (PInt y)) tr of
             (Some e, tr1) \<Rightarrow> (Some e, tr1)
           | (None, tr1) \<Rightarrow>
               (case page_do env MouseDown tr1 of
                  (Some e, tr2) \<Rightarrow> (Some e, tr2)
                | (None, tr2) \<Rightarrow>
                    (case drag_moves env points tr2 of
                       (Some e, tr3) \<Rightarrow> (Some e, tr3)
                     | (None, tr3) \<Rightarrow> page_do env MouseUp tr3)))
      | PKeys [] \<Rightarrow> (None, tr)
      | PKeys (k # ks) \<Rightarrow> (Some (Exn TypeError ''string indices must be integers''), tr)
      | PStr s \<Rightarrow>
          (if s = [] then (None, tr)
           else (Some (Exn TypeError ''string indices must be integers''), tr))
      | PNone \<Rightarrow> (None, tr)
      | PInt i \<Rightarrow>
          (if i = 0 then (None, tr)
           else (Some (Exn TypeError ''int object is not subscriptable''), tr)))"

definition handle_computer_action :: "env \<Rightarrow> action \<Rightarrow> event list \<Rightarrow> exn option \<times> event list" where
  "handle_computer_action env a tr =
     (let action_type = get a ''type'' PNone
      in if action_type = PStr ''click''
         then openai_click env (get a ''x'' (PInt 0)) (get a ''y'' (PInt 0))
                (get a ''button'' (PStr ''left'')) tr
         else if action_type = PStr ''type'' then openai_type env (get a ''text'' (PStr [])) tr
         else if action_type = PStr ''scroll''
         then openai_scroll env (get a ''x'' (PInt 0)) (get a ''y'' (PInt 0))
                (get a ''scroll_x'' (PInt 0)) (get a ''scroll_y'' (PInt 0)) tr
         else if action_type = PStr ''keypress'' then openai_keypress env (get a ''keys'' (PKeys [])) tr
         else if action_type = PStr ''wait'' then openai_wait (get a ''ms'' (PInt 1000)) tr
         else if action_type = PStr ''move''
         then openai_move env (get a ''x'' (PInt 0)) (get a ''y'' (PInt 0)) tr
         else if action_type = PStr ''double_click''
         then openai_double_click env (get a ''x'' (PInt 0)) (get a ''y'' (PInt 0)) tr
         else if action_type = PStr ''drag'' then openai_drag env (get a ''path'' (PPath [])) tr
         else if action_type = PStr ''screenshot'' then (None, tr)
         else (None, send_log (UnknownActionType action_type) Status tr))"

subsection \<open>run_task\<close>

record task_result =
  result :: string
  result_screenshots :: "screenshot_entry list"
  iterations :: int
  result_completed :: bool
  result_error :: "string option"

definition image_url :: "string \<Rightarrow> string" where
  "image_url shot = ''data:image/jpeg;base64,'' @ shot"

definition computer_tool :: "CUAConfig \<Rightarrow> tool" where
  "computer_tool cfg =
     \<lparr>tool_type = ''computer_use_preview'', tool_display_width = display_width cfg,
      tool_display_height = display_height cfg, tool_environment = environment cfg\<rparr>"

text \<open>The first \<^verbatim>\<open>request_data\<close>: the task and the initial screenshot.\<close>

definition initial_request :: "CUAConfig \<Rightarrow> string \<Rightarrow> string \<Rightarrow> request" where
  "initial_request cfg task shot =
     \<lparr>req_model = model cfg, req_previous_response_id = None,
      req_tools = [computer_tool cfg], req_input = [UserMessage task (image_url shot)],
      req_reasoning_summary = Some (reasoning_summary cfg), req_truncation = truncation cfg\<rparr>"

text \<open>
  The \<^verbatim>\<open>request_data\<close> that sends a screenshot back: the dict of the
  \<^verbatim>\<open>computer_call_output\<close> has the keys \<^verbatim>\<open>call_id\<close>, \<^verbatim>\<open>type\<close>, \<^verbatim>\<open>output\<close> and
  \<^verbatim>\<open>current_url\<close>, and no other.
\<close>

definition call_output_request ::
  "CUAConfig \<Rightarrow> CUAState \<Rightarrow> computer_call \<Rightarrow> string \<Rightarrow> string \<Rightarrow> request" where
  "call_output_request cfg st c shot url =
     \<lparr>req_model = model cfg, req_previous_response_id = previous_response_id st,
      req_tools = [computer_tool cfg],
      req_input = [CallOutput (call_id c) (image_url shot)
                     (if page st = None then None else Some url) None],
      req_reasoning_summary = None, req_truncation = truncation cfg\<rparr>"

text \<open>\<^verbatim>\<open>Response.is_success\<close> of httpx: the status codes 200 to 299.\<close>

definition is_success :: "nat \<Rightarrow> bool" where
  "is_success status = (200 \<le> status \<and> status \<le> 299)"

text \<open>
  \<^verbatim>\<open>client.post\<close>, \<^verbatim>\<open>resp.raise_for_status()\<close> and \<^verbatim>\<open>resp.json()\<close>: the parsed
  document, or the exception of the transport, of a status that is not a success, or
  of a body that is not JSON. (The text httpx gives its HTTPStatusError is
  abbreviated to the status code.)
\<close>

definition post_request :: "env \<Rightarrow> request \<Rightarrow> event list \<Rightarrow> (exn + response) \<times> event list" where
  "post_request env req tr =
     (let reply = http_post env tr req; tr1 = tr @ [Post req reply]
      in case reply of
           NoResponse m \<Rightarrow> (Inl (Exn RequestError m), tr1)
         | HttpResponse status body \<Rightarrow>
             if \<not> is_success status
             then (Inl (Exn HTTPStatusError (''HTTP status '' @ str_nat status)), tr1)
             else (case body of
                     None \<Rightarrow> (Inl (Exn JSONDecodeError ''Expecting value''), tr1)
                   | Some r \<Rightarrow> (Inr r, tr1)))"

text \<open>The loop over the summary of a reasoning item.\<close>

fun log_summary :: "string option list \<Rightarrow> event list \<Rightarrow> event list" where
  "log_summary [] tr = tr"
| "log_summary (Some t # summary) tr = log_summary summary (send_log (CUAReasoning t) Agent tr)"
| "log_summary (None # summary) tr = log_summary summary tr"

text \<open>
  The loop \<^verbatim>\<open>for item in response.get('output', [])\<close>: it collects the computer
  calls in \<open>computer_calls\<close> and logs reasoning and text items.
\<close>

fun process_output ::
  "item list \<Rightarrow> computer_call list \<Rightarrow> event list \<Rightarrow> computer_call list \<times> event list" where
  "process_output [] computer_calls tr = (computer_calls, tr)"
| "process_output (Reasoning summary # items) computer_calls tr =
     process_output items computer_calls (log_summary summary tr)"
| "process_output (ComputerCall c # items) computer_calls tr =
     process_output items (computer_calls @ [c]) tr"
| "process_output (TextItem (Some t) # items) computer_calls tr =
     process_output items computer_calls (send_log (CUAMessage t) Agent tr)"
| "process_output (TextItem None # items) computer_calls tr =
     process_output items computer_calls tr"
| "process_output (Message content # items) computer_calls tr =
     process_output items computer_calls tr"
| "process_output (OtherItem ty # items) computer_calls tr =
     process_output items computer_calls tr"

text \<open>The loop over \<^verbatim>\<open>pending_checks\<close>: one log line for each check.\<close>

fun log_checks :: "safety_check list \<Rightarrow> event list \<Rightarrow> event list" where
  "log_checks [] tr = tr"
| "log_checks (check # checks) tr =
     log_checks checks
       (send_log (SafetyCheck (case message check of None \<Rightarrow> ''Unknown check'' | Some m \<Rightarrow> m))
          Status tr)"

text \<open>\<^verbatim>\<open>if action:\<close> holds for a dict that is there and not empty.\<close>

fun truthy :: "action option \<Rightarrow> bool" where
  "truthy None = False"
| "truthy (Some a) = (a \<noteq> [])"

text \<open>
  The body of \<^verbatim>\<open>for computer_call in computer_calls\<close>: log the safety checks, execute
  the action, wait a second, capture, store the screenshot, send it back. The result
  is the new \<^verbatim>\<open>response\<close>, or the exception that leaves the loop, with the state and
  the trace at that point.
\<close>

definition execute_call ::
  "env \<Rightarrow> CUAConfig \<Rightarrow> computer_call \<Rightarrow> CUAState \<Rightarrow> event list
     \<Rightarrow> (exn + response) \<times> CUAState \<times> event list" where
  "execute_call env cfg c st tr =
     (let pending_checks = pending_safety_checks c;
          tr1 = (if pending_checks \<noteq> [] then log_checks pending_checks tr else tr)
      in case (if truthy (call_action c) then execute_action env st (the (call_action c)) tr1
               else (None, tr1)) of
           (Some e, tr2) \<Rightarrow> (Inl e, st, tr2)
         | (None, tr2) \<Rightarrow>
             (case capture_screenshot env st (tr2 @ [Sleep 1000]) of
                (Inl e, tr3) \<Rightarrow> (Inl e, st, tr3)
              | (Inr shot, tr3) \<Rightarrow>
                  (let st1 = st\<lparr>screenshots := screenshots st @
                               [\<lparr>step = iteration_count st, screenshot = shot,
                                 action = call_action c\<rparr>]\<rparr>
                   in case post_request env
                             (call_output_request cfg st1 c shot (page_url env tr3)) tr3 of
                        (Inl e, tr4) \<Rightarrow> (Inl e, st1, tr4)
                      | (Inr response, tr4) \<Rightarrow>
                          (Inr response,
                           st1\<lparr>previous_response_id := response_id response\<rparr>, tr4))))"

text \<open>
  The whole \<^verbatim>\<open>for\<close> loop: the calls of one response in order, each after the request
  of the one before; \<open>response\<close> is the last document received.
\<close>

fun execute_calls ::
  "env \<Rightarrow> CUAConfig \<Rightarrow> computer_call list \<Rightarrow> response \<Rightarrow> CUAState \<Rightarrow> event list
     \<Rightarrow> (exn + response) \<times> CUAState \<times> event list" where
  "execute_calls env cfg [] response st tr = (Inr response, st, tr)"
| "execute_calls env cfg (c # cs) response st tr =
     (case execute_call env cfg c st tr of
        (Inl e, st1, tr1) \<Rightarrow> (Inl e, st1, tr1)
      | (Inr response1, st1, tr1) \<Rightarrow> execute_calls env cfg cs response1 st1 tr1)"

text \<open>
  A computer call changes the screenshots and the continuation token of the state and
  nothing else; the loop below terminates because of it.
\<close>

lemma execute_call_keeps:
  "execute_call env cfg c st tr = (r, st1, tr1) \<Longrightarrow>
     iteration_count st1 = iteration_count st \<and> completed st1 = completed st \<and>
     error st1 = error st \<and> page st1 = page st"
  by (auto simp: execute_call_def Let_def split: if_splits prod.splits option.splits sum.splits)

lemma execute_calls_keeps:
  "execute_calls env cfg cs response st tr = (r, st1, tr1) \<Longrightarrow>
     iteration_count st1 = iteration_count st \<and> completed st1 = completed st \<and>
     error st1 = error st \<and> page st1 = page st"
proof (induction cs arbitrary: response st tr)
  case Nil
  then show ?case by simp
next
  case (Cons c cs)
  show ?case
  proof (cases "execute_call env cfg c st tr")
    case (fields r0 st0 tr0)
    note k = execute_call_keeps [OF fields]
    show ?thesis
    proof (cases r0)
      case (Inl e)
      with Cons.prems fields k show ?thesis by simp
    next
      case (Inr response1)
      with Cons.prems fields have "execute_calls env cfg cs response1 st0 tr0 = (r, st1, tr1)"
        by simp
      from Cons.IH [OF this] k show ?thesis by simp
    qed
  qed
qed

text \<open>
  The loop \<^verbatim>\<open>while not self.state.completed and self.state.iteration_count <
  self.config.max_iterations\<close>. The result is the exception that left it, if any,
  with the state and the trace at that point.
\<close>

function run_loop ::
  "env \<Rightarrow> CUAConfig \<Rightarrow> response \<Rightarrow> CUAState \<Rightarrow> event list
     \<Rightarrow> exn option \<times> CUAState \<times> event list" where
  "run_loop env cfg response st tr =
     (if \<not> completed st \<and> iteration_count st < max_iterations cfg then
        (let st1 = st\<lparr>iteration_count := iteration_count st + 1\<rparr>
         in case process_output (response_output response) [] tr of
              (computer_calls, tr1) \<Rightarrow>
                if computer_calls = []
                then (None, st1\<lparr>completed := True\<rparr>,
                      send_log TaskCompletedNoMoreActions Agent tr1)
                else (case execute_calls env cfg computer_calls response st1 tr1 of
                        (Inl e, st2, tr2) \<Rightarrow> (Some e, st2, tr2)
                      | (Inr response1, st2, tr2) \<Rightarrow> run_loop env cfg response1 st2 tr2))
      else (None, st, tr))"
  by pat_completeness auto
termination
proof (relation "measure (\<lambda>(env, cfg, response, st, tr). nat (max_iterations cfg - iteration_count st))", goal_cases)
  case 1
  show ?case by simp
next
  case (2 env cfg response st tr st1 computer_calls tr1 r rest response1 st2 tr2)
  then have "execute_calls env cfg computer_calls response st1 tr1 = (Inr response1, st2, tr2)"
    by simp
  from execute_calls_keeps [OF this] 2(1,2) have "iteration_count st2 = iteration_count st + 1"
    by simp
  moreover from 2 have "rest = (st2, tr2)" by simp
  ultimately show ?case using 2(1) by simp
qed

declare run_loop.simps [simp del]

text \<open>
  The \<^verbatim>\<open>try\<close> block of \<^verbatim>\<open>run_task\<close>: the first request, then the loop.
\<close>

definition run_task_try ::
  "env \<Rightarrow> CUAConfig \<Rightarrow> string \<Rightarrow> string \<Rightarrow> CUAState \<Rightarrow> event list
     \<Rightarrow> exn option \<times> CUAState \<times> event list" where
  "run_task_try env cfg task initial_screenshot st tr =
     (case post_request env (initial_request cfg task initial_screenshot) tr of
        (Inl e, tr1) \<Rightarrow> (Some e, st, tr1)
      | (Inr response, tr1) \<Rightarrow>
          run_loop env cfg response (st\<lparr>previous_response_id := response_id response\<rparr>) tr1)"

text \<open>The navigation \<^verbatim>\<open>if initial_url: await self.state.page.goto(initial_url)\<close>.\<close>

definition goto_initial_url :: "env \<Rightarrow> string option \<Rightarrow> event list \<Rightarrow> exn option \<times> event list" where
  "goto_initial_url env initial_url tr =
     (case initial_url of
        None \<Rightarrow> (None, tr)
      | Some url \<Rightarrow>
          if url = [] then (None, tr)
          else (case page_do env (Goto url) tr of
                  (Some e, tr1) \<Rightarrow> (Some e, tr1)
                | (None, tr1) \<Rightarrow> (None, send_log (Navigated url) Agent tr1)))"

text \<open>The dictionary returned after the loop, and the one of the \<^verbatim>\<open>except\<close> clause.\<close>

definition loop_result :: "CUAState \<Rightarrow> task_result" where
  "loop_result st =
     \<lparr>result = (if completed st then ''Task completed successfully''
                else ''Task stopped after '' @ str_int (iteration_count st) @ '' iterations''),
      result_screenshots = screenshots st, iterations = iteration_count st,
      result_completed = completed st, result_error = error st\<rparr>"

definition error_result :: "CUAState \<Rightarrow> exn \<Rightarrow> task_result" where
  "error_result st e =
     \<lparr>result = ''Error: '' @ str e, result_screenshots = screenshots st,
      iterations = iteration_count st, result_completed = False,
      result_error = Some (str e)\<rparr>"

text \<open>
  \<^verbatim>\<open>run_task\<close>. What comes before the \<^verbatim>\<open>try\<close> (the check of the page, the
  navigation, the initial screenshot) raises to the caller: the result is \<open>Inl\<close>. An
  exception inside the \<^verbatim>\<open>try\<close> is logged, stored in the state and returned in the
  dictionary.
\<close>

definition run_task ::
  "env \<Rightarrow> OpenAICUA \<Rightarrow> string \<Rightarrow> string option \<Rightarrow> event list
     \<Rightarrow> (exn + task_result) \<times> OpenAICUA \<times> event list" where
  "run_task env self task initial_url tr =
     (if page (state self) = None
      then (Inl (Exn ValueError ''Browser not initialized. Call initialize_browser first.''),
            self, tr)
      else
        (case goto_initial_url env initial_url tr of
           (Some e, tr1) \<Rightarrow> (Inl e, self, tr1)
         | (None, tr1) \<Rightarrow>
             (case capture_screenshot env (state self) tr1 of
                (Inl e, tr2) \<Rightarrow> (Inl e, self, tr2)
              | (Inr initial_screenshot, tr2) \<Rightarrow>
                  (case run_task_try env (config self) task initial_screenshot (state self)
                          (send_log (StartingTask task) Agent tr2) of
                     (None, st, tr3) \<Rightarrow> (Inr (loop_result st), self\<lparr>state := st\<rparr>, tr3)
                   | (Some e, st, tr3) \<Rightarrow>
                       (Inr (error_result st e), self\<lparr>state := st\<lparr>error := Some (str e)\<rparr>\<rparr>,
                        send_log (TaskFailed (str e)) Status tr3)))))"

section \<open>What a run leaves behind\<close>

fun is_post :: "event \<Rightarrow> bool" where
  "is_post (Post q r) = True"
| "is_post e = False"

fun is_action_report :: "event \<Rightarrow> bool" where
  "is_action_report (Log (Clicked x y b) t) = True"
| "is_action_report (Log (Typed v b) t) = True"
| "is_action_report (Log (PressedKeys ks) t) = True"
| "is_action_report (Log (Scrolled a b c d) t) = True"
| "is_action_report (Log Waited t) = True"
| "is_action_report (Log ScreenshotRequested t) = True"
| "is_action_report (Log (UnknownActionType v) t) = True"
| "is_action_report (Log (FailedToExecute v m) t) = True"
| "is_action_report e = False"

fun is_task_failed :: "event \<Rightarrow> bool" where
  "is_task_failed (Log (TaskFailed m) t) = True"
| "is_task_failed e = False"

definition tracked :: "event \<Rightarrow> bool" where
  "tracked e = (is_post e \<or> is_action_report e \<or> is_task_failed e)"

definition observed :: "event list \<Rightarrow> event list" where
  "observed tr = filter tracked tr"

definition posts :: "event list \<Rightarrow> event list" where
  "posts tr = filter is_post tr"

definition action_reports :: "event list \<Rightarrow> event list" where
  "action_reports tr = filter is_action_report tr"

lemma observed_append [simp]: "observed (a @ b) = observed a @ observed b"
  by (simp add: observed_def)

lemma observed_Nil [simp]: "observed [] = []"
  by (simp add: observed_def)

lemma observed_Cons [simp]:
  "observed (e # tr) = (if tracked e then e # observed tr else observed tr)"
  by (simp add: observed_def)

lemma tracked_simps [simp]:
  "\<not> tracked (Page op)" "\<not> tracked (Sleep n)" "tracked (Post q r)"
  "tracked (Log m t) = (is_action_report (Log m t) \<or> is_task_failed (Log m t))"
  by (simp_all add: tracked_def)

lemma posts_observed: "posts tr = filter is_post (observed tr)"
  by (auto simp: posts_def observed_def tracked_def intro: filter_cong)

lemma action_reports_observed: "action_reports tr = filter is_action_report (observed tr)"
  by (auto simp: action_reports_def observed_def tracked_def intro: filter_cong)

lemma task_failed_observed: "filter is_task_failed tr = filter is_task_failed (observed tr)"
  by (auto simp: observed_def tracked_def intro: filter_cong)

lemma page_do_observed: "page_do env op tr = (x, tr1) \<Longrightarrow> observed tr1 = observed tr"
  by (auto simp: page_do_def)

lemma page_do_prefix: "page_do env op tr = (x, tr1) \<Longrightarrow> prefix tr tr1"
  by (auto simp: page_do_def)

lemma press_keys_observed: "press_keys env ks tr = (x, tr1) \<Longrightarrow> observed tr1 = observed tr"
  by (induction ks arbitrary: tr) (auto simp: page_do_def split: option.splits)

lemma press_keys_prefix: "press_keys env ks tr = (x, tr1) \<Longrightarrow> prefix tr tr1"
proof (induction ks arbitrary: tr)
  case Nil
  then show ?case by simp
next
  case (Cons k ks)
  then show ?case
    by (auto simp: page_do_def split: option.splits dest: append_prefixD)
qed

text \<open>what one action adds to the observed events: its report, when it does not raise\<close>

definition reported :: "exn option \<Rightarrow> event list \<Rightarrow> event list \<Rightarrow> bool" where
  "reported x tr tr1 =
     (if x = None then \<exists>m t. is_action_report (Log m t) \<and> observed tr1 = observed tr @ [Log m t]
      else observed tr1 = observed tr)"

lemma observed_report: "is_action_report (Log m t) \<Longrightarrow> observed [Log m t] = [Log m t]"
  by simp

lemma do_click_reported: "do_click env a tr = (x, tr1) \<Longrightarrow> reported x tr tr1"
  by (auto simp: do_click_def reported_def page_do_def send_log_def Let_def observed_report
      split: option.splits)

lemma do_type_reported: "do_type env a tr = (x, tr1) \<Longrightarrow> reported x tr tr1"
  by (auto simp: do_type_def reported_def page_do_def send_log_def Let_def observed_report
      split: option.splits sum.splits)

lemma do_keypress_reported: "do_keypress env a tr = (x, tr1) \<Longrightarrow> reported x tr tr1"
  by (auto simp: do_keypress_def reported_def send_log_def observed_report
      split: option.splits pval.splits list.splits prod.splits dest: press_keys_observed)

lemma do_scroll_reported: "do_scroll env a tr = (x, tr1) \<Longrightarrow> reported x tr tr1"
  by (auto simp: do_scroll_def reported_def page_do_def send_log_def Let_def observed_report
      split: option.splits)

lemma action_body_reported: "action_body env a tr = (x, tr1) \<Longrightarrow> reported x tr tr1"
  unfolding action_body_def Let_def
  by (auto dest: do_click_reported do_type_reported do_keypress_reported do_scroll_reported
      simp: reported_def send_log_def observed_report split: if_splits)

lemma execute_action_observed:
  "page st \<noteq> None \<Longrightarrow> execute_action env st a tr = (x, tr1) \<Longrightarrow>
     \<exists>m t. is_action_report (Log m t) \<and> observed tr1 = observed tr @ [Log m t]"
  by (auto simp: execute_action_def reported_def send_log_def observed_report
      split: prod.splits option.splits dest!: action_body_reported)

lemma do_click_prefix: "do_click env a tr = (x, tr1) \<Longrightarrow> prefix tr tr1"
  by (auto simp: do_click_def page_do_def send_log_def Let_def split: option.splits)

lemma do_type_prefix: "do_type env a tr = (x, tr1) \<Longrightarrow> prefix tr tr1"
  by (auto simp: do_type_def page_do_def send_log_def Let_def split: option.splits sum.splits)

lemma do_keypress_prefix: "do_keypress env a tr = (x, tr1) \<Longrightarrow> prefix tr tr1"
  by (auto simp: do_keypress_def send_log_def
      split: option.splits pval.splits list.splits prod.splits
      dest: press_keys_prefix intro: prefix_order.trans)

lemma do_scroll_prefix: "do_scroll env a tr = (x, tr1) \<Longrightarrow> prefix tr tr1"
  by (auto simp: do_scroll_def page_do_def send_log_def Let_def split: option.splits)

lemma action_body_prefix: "action_body env a tr = (x, tr1) \<Longrightarrow> prefix tr tr1"
  unfolding action_body_def Let_def
  by (auto dest: do_click_prefix do_type_prefix do_keypress_prefix do_scroll_prefix
      simp: send_log_def split: if_splits)

lemma execute_action_prefix: "execute_action env st a tr = (x, tr1) \<Longrightarrow> prefix tr tr1"
  by (auto simp: execute_action_def send_log_def split: prod.splits option.splits if_splits
      dest!: action_body_prefix intro: prefix_order.trans)

lemma capture_screenshot_observed:
  "capture_screenshot env st tr = (r, tr1) \<Longrightarrow> observed tr1 = observed tr"
  by (auto simp: capture_screenshot_def page_do_def send_log_def observed_def tracked_def
      split: if_splits option.splits)

lemma capture_screenshot_prefix:
  "capture_screenshot env st tr = (r, tr1) \<Longrightarrow> prefix tr tr1"
  by (auto simp: capture_screenshot_def page_do_def send_log_def split: if_splits option.splits)

lemma log_summary_observed: "observed (log_summary summary tr) = observed tr"
  by (induction summary tr rule: log_summary.induct)
     (auto simp: send_log_def observed_def tracked_def)

lemma log_summary_prefix: "prefix tr (log_summary summary tr)"
  by (induction summary tr rule: log_summary.induct)
     (auto simp: send_log_def dest: append_prefixD)

lemma log_checks_observed: "observed (log_checks checks tr) = observed tr"
  by (induction checks arbitrary: tr) (auto simp: send_log_def observed_def tracked_def)

lemma log_checks_prefix: "prefix tr (log_checks checks tr)"
  by (induction checks arbitrary: tr) (auto simp: send_log_def dest: append_prefixD)

text \<open>the four ways through the body of the for loop\<close>

definition checks_logged :: "computer_call \<Rightarrow> event list \<Rightarrow> event list" where
  "checks_logged c tr =
     (if pending_safety_checks c \<noteq> [] then log_checks (pending_safety_checks c) tr else tr)"

definition action_step :: "env \<Rightarrow> CUAState \<Rightarrow> computer_call \<Rightarrow> event list \<Rightarrow> exn option \<times> event list" where
  "action_step env st c tr =
     (if truthy (call_action c)
      then execute_action env st (the (call_action c)) (checks_logged c tr)
      else (None, checks_logged c tr))"

definition stored :: "CUAState \<Rightarrow> computer_call \<Rightarrow> string \<Rightarrow> CUAState" where
  "stored st c shot =
     st\<lparr>screenshots := screenshots st @
          [\<lparr>step = iteration_count st, screenshot = shot, action = call_action c\<rparr>]\<rparr>"

lemma execute_call_cases [consumes 1, case_names action_failed capture_failed post_failed ok]:
  assumes "execute_call env cfg c st tr = (r, st1, tr1)"
  obtains
    (action_failed) e where
      "action_step env st c tr = (Some e, tr1)" "r = Inl e" "st1 = st"
  | (capture_failed) e tr2 where
      "action_step env st c tr = (None, tr2)"
      "capture_screenshot env st (tr2 @ [Sleep 1000]) = (Inl e, tr1)" "r = Inl e" "st1 = st"
  | (post_failed) e tr2 shot tr3 where
      "action_step env st c tr = (None, tr2)"
      "capture_screenshot env st (tr2 @ [Sleep 1000]) = (Inr shot, tr3)"
      "post_request env (call_output_request cfg (stored st c shot) c shot (page_url env tr3)) tr3
         = (Inl e, tr1)"
      "r = Inl e" "st1 = stored st c shot"
  | (ok) tr2 shot tr3 response where
      "action_step env st c tr = (None, tr2)"
      "capture_screenshot env st (tr2 @ [Sleep 1000]) = (Inr shot, tr3)"
      "post_request env (call_output_request cfg (stored st c shot) c shot (page_url env tr3)) tr3
         = (Inr response, tr1)"
      "r = Inr response"
      "st1 = (stored st c shot)\<lparr>previous_response_id := response_id response\<rparr>"
  using assms
  unfolding execute_call_def action_step_def checks_logged_def stored_def Let_def
  by (auto split: prod.splits option.splits sum.splits if_splits)

fun ok_reply :: "http_reply \<Rightarrow> bool" where
  "ok_reply (HttpResponse status (Some r)) = is_success status"
| "ok_reply (HttpResponse status None) = False"
| "ok_reply (NoResponse m) = False"

fun ok_post :: "event \<Rightarrow> bool" where
  "ok_post (Post q reply) = ok_reply reply"
| "ok_post e = True"

fun computer_calls_of :: "item list \<Rightarrow> computer_call list" where
  "computer_calls_of [] = []"
| "computer_calls_of (ComputerCall c # items) = c # computer_calls_of items"
| "computer_calls_of (i # items) = computer_calls_of items"

lemma post_request_trace:
  "post_request env q tr = (r, tr1) \<Longrightarrow> tr1 = tr @ [Post q (http_post env tr q)]"
  by (auto simp: post_request_def Let_def split: http_reply.splits if_splits option.splits)

lemma post_request_Inr:
  "post_request env q tr = (Inr response, tr1) \<Longrightarrow>
     \<exists>status. http_post env tr q = HttpResponse status (Some response) \<and> is_success status"
  by (auto simp: post_request_def Let_def split: http_reply.splits if_splits option.splits)

lemma post_request_Inr_ok:
  "post_request env q tr = (Inr response, tr1) \<Longrightarrow> ok_reply (http_post env tr q)"
  by (auto dest: post_request_Inr)

lemma post_request_Inl:
  "post_request env q tr = (Inl e, tr1) \<Longrightarrow> \<not> ok_reply (http_post env tr q)"
  by (cases "http_post env tr q" rule: ok_reply.cases)
     (auto simp: post_request_def Let_def)

lemma post_request_not_ok:
  "\<not> ok_reply (http_post env tr q) \<Longrightarrow> \<exists>e. fst (post_request env q tr) = Inl e"
  by (cases "http_post env tr q" rule: ok_reply.cases)
     (auto simp: post_request_def Let_def)

lemma process_output_calls:
  "fst (process_output items cs tr) = cs @ computer_calls_of items"
  by (induction items cs tr rule: process_output.induct) auto

lemma process_output_observed:
  "observed (snd (process_output items cs tr)) = observed tr"
  by (induction items cs tr rule: process_output.induct)
     (auto simp: log_summary_observed send_log_def)

lemma process_output_prefix:
  "prefix tr (snd (process_output items cs tr))"
  by (induction items cs tr rule: process_output.induct)
     (auto simp: send_log_def intro: prefix_order.trans [OF log_summary_prefix]
        dest: append_prefixD)

lemma checks_logged_observed [simp]: "observed (checks_logged c tr) = observed tr"
  by (simp add: checks_logged_def log_checks_observed)

lemma checks_logged_prefix: "prefix tr (checks_logged c tr)"
  by (simp add: checks_logged_def log_checks_prefix)

lemma action_step_observed:
  "page st \<noteq> None \<Longrightarrow> action_step env st c tr = (x, tr2) \<Longrightarrow>
     (if truthy (call_action c)
      then \<exists>m t. is_action_report (Log m t) \<and> observed tr2 = observed tr @ [Log m t]
      else x = None \<and> observed tr2 = observed tr)"
  using execute_action_observed [of st env "the (call_action c)" "checks_logged c tr" x tr2]
  by (auto simp: action_step_def split: if_splits)

lemma action_step_prefix: "action_step env st c tr = (x, tr2) \<Longrightarrow> prefix tr tr2"
  by (auto simp: action_step_def split: if_splits
      intro: prefix_order.trans [OF checks_logged_prefix] checks_logged_prefix
      dest: execute_action_prefix)

lemma execute_call_prefix:
  assumes "execute_call env cfg c st tr = (r, st1, tr1)"
  shows "prefix tr tr1"
  using assms
proof (cases rule: execute_call_cases)
  case (action_failed e)
  then show ?thesis by (auto dest: action_step_prefix)
next
  case (capture_failed e tr2)
  then show ?thesis
    by (auto simp: prefix_def dest!: action_step_prefix capture_screenshot_prefix)
next
  case (post_failed e tr2 shot tr3)
  then show ?thesis
    by (auto simp: prefix_def dest!: action_step_prefix capture_screenshot_prefix post_request_trace)
next
  case (ok tr2 shot tr3 response)
  then show ?thesis
    by (auto simp: prefix_def dest!: action_step_prefix capture_screenshot_prefix post_request_trace)
qed

lemma execute_calls_prefix:
  "execute_calls env cfg cs response st tr = (r, st1, tr1) \<Longrightarrow> prefix tr tr1"
proof (induction cs arbitrary: response st tr)
  case Nil
  then show ?case by simp
next
  case (Cons c cs)
  obtain r0 st0 tr0 where c: "execute_call env cfg c st tr = (r0, st0, tr0)"
    by (cases "execute_call env cfg c st tr") auto
  note p = execute_call_prefix [OF c]
  show ?case
  proof (cases r0)
    case (Inl e)
    with Cons.prems c p show ?thesis by simp
  next
    case (Inr response1)
    with Cons.prems c have "execute_calls env cfg cs response1 st0 tr0 = (r, st1, tr1)"
      by simp
    from Cons.IH [OF this] p show ?thesis by (rule prefix_order.trans [rotated])
  qed
qed

lemma capture_None_page:
  "capture_screenshot env st tr = (Inr shot, tr1) \<Longrightarrow> page st \<noteq> None"
  by (auto simp: capture_screenshot_def split: if_splits)

text \<open>what a computer call adds to the observed events\<close>

lemma execute_call_observed:
  assumes "execute_call env cfg c st tr = (r, st1, tr1)" and "page st \<noteq> None"
  shows "\<exists>rep. (if truthy (call_action c)
               then \<exists>m t. is_action_report (Log m t) \<and> rep = [Log m t] else rep = []) \<and>
           ((\<exists>e. r = Inl e \<and> st1 = st \<and> observed tr1 = observed tr @ rep) \<or>
            (\<exists>shot pre q reply.
               tr1 = pre @ [Post q reply] \<and> observed pre = observed tr @ rep \<and>
               ((\<exists>e. r = Inl e \<and> \<not> ok_reply reply \<and> st1 = stored st c shot) \<or>
                (\<exists>response status. r = Inr response \<and>
                   reply = HttpResponse status (Some response) \<and> is_success status \<and>
                   st1 = (stored st c shot)\<lparr>previous_response_id := response_id response\<rparr>))))"
  using assms(1)
proof (cases rule: execute_call_cases)
  case (action_failed e)
  from action_step_observed [OF assms(2) action_failed(1)] action_failed(1)
  have "\<exists>m t. is_action_report (Log m t) \<and> observed tr1 = observed tr @ [Log m t]"
    and "truthy (call_action c)"
    by (auto split: if_splits)
  with action_failed show ?thesis by auto
next
  case (capture_failed e tr2)
  from action_step_observed [OF assms(2) capture_failed(1)]
    capture_screenshot_observed [OF capture_failed(2)] capture_failed(3,4)
  show ?thesis
    by (cases "truthy (call_action c)") auto
next
  case (post_failed e tr2 shot tr3)
  from action_step_observed [OF assms(2) post_failed(1)]
    capture_screenshot_observed [OF post_failed(2)]
    post_request_trace [OF post_failed(3)] post_request_Inl [OF post_failed(3)] post_failed(4,5)
  show ?thesis
    by (cases "truthy (call_action c)") auto
next
  case (ok tr2 shot tr3 response)
  from action_step_observed [OF assms(2) ok(1)]
    capture_screenshot_observed [OF ok(2)]
    post_request_trace [OF ok(3)] post_request_Inr [OF ok(3)] ok(4,5)
  show ?thesis
    by (cases "truthy (call_action c)") auto
qed

definition recorded :: "CUAState \<Rightarrow> nat" where
  "recorded st = length (filter (\<lambda>e. truthy (action e)) (screenshots st))"

definition steps_ok :: "CUAState \<Rightarrow> bool" where
  "steps_ok st =
     (sorted (map step (screenshots st)) \<and>
      (\<forall>e \<in> set (screenshots st). 1 \<le> step e \<and> step e \<le> iteration_count st))"

definition bounded :: "CUAConfig \<Rightarrow> CUAState \<Rightarrow> bool" where
  "bounded cfg st =
     (page st \<noteq> None \<and> 0 \<le> iteration_count st \<and>
      iteration_count st \<le> max 0 (max_iterations cfg))"

definition consistent :: "CUAConfig \<Rightarrow> CUAState \<Rightarrow> event list \<Rightarrow> bool" where
  "consistent cfg st tr =
     (bounded cfg st \<and> steps_ok st \<and>
      length (posts tr) = Suc (length (screenshots st)) \<and>
      length (action_reports tr) = recorded st \<and>
      list_all ok_post tr \<and> \<not> list_ex is_task_failed tr)"

definition aborted :: "CUAConfig \<Rightarrow> CUAState \<Rightarrow> event list \<Rightarrow> bool" where
  "aborted cfg st tr =
     (bounded cfg st \<and> steps_ok st \<and>
      length (posts tr) = Suc (length (screenshots st)) \<and>
      recorded st \<le> length (action_reports tr) \<and>
      length (action_reports tr) \<le> Suc (recorded st) \<and>
      \<not> list_ex is_task_failed tr \<and>
      (list_all ok_post tr \<or>
       (\<exists>pre q reply. tr = pre @ [Post q reply] \<and> \<not> ok_reply reply \<and> list_all ok_post pre \<and>
          length (action_reports tr) = recorded st)))"

lemma report_simps:
  "is_action_report (Log m t) \<Longrightarrow> \<not> is_task_failed (Log m t)"
  by (cases m) auto

lemma ok_post_not_post: "\<not> is_post e \<Longrightarrow> ok_post e"
  by (cases e) auto

lemma ok_post_observed: "list_all ok_post tr = list_all ok_post (observed tr)"
  by (induction tr) (auto simp: tracked_def ok_post_not_post)

lemma task_failed_ex_observed: "list_ex is_task_failed tr = list_ex is_task_failed (observed tr)"
  by (induction tr) (auto simp: tracked_def)

lemma observed_eq:
  assumes "observed tr1 = observed tr @ X"
  shows "posts tr1 = posts tr @ filter is_post X"
    and "action_reports tr1 = action_reports tr @ filter is_action_report X"
    and "list_all ok_post tr1 = (list_all ok_post tr \<and> list_all ok_post X)"
    and "list_ex is_task_failed tr1 = (list_ex is_task_failed tr \<or> list_ex is_task_failed X)"
  using assms
  by (simp_all add: posts_observed [of tr1] posts_observed [of tr]
      action_reports_observed [of tr1] action_reports_observed [of tr]
      ok_post_observed [of tr1] ok_post_observed [of tr]
      task_failed_ex_observed [of tr1] task_failed_ex_observed [of tr])

lemma posts_snoc [simp]: "posts (tr @ [Post q r]) = posts tr @ [Post q r]"
  by (simp add: posts_def)

lemma action_reports_snoc [simp]: "action_reports (tr @ [Post q r]) = action_reports tr"
  by (simp add: action_reports_def)

lemma stored_simps [simp]:
  "screenshots (stored st c shot) =
     screenshots st @ [\<lparr>step = iteration_count st, screenshot = shot, action = call_action c\<rparr>]"
  "iteration_count (stored st c shot) = iteration_count st"
  "page (stored st c shot) = page st"
  "completed (stored st c shot) = completed st"
  "error (stored st c shot) = error st"
  by (simp_all add: stored_def)

lemma recorded_stored [simp]:
  "recorded (stored st c shot) = recorded st + (if truthy (call_action c) then 1 else 0)"
  by (simp add: recorded_def)

lemma recorded_previous [simp]: "recorded (st\<lparr>previous_response_id := x\<rparr>) = recorded st"
  by (simp add: recorded_def)

lemma steps_ok_stored:
  "steps_ok st \<Longrightarrow> 1 \<le> iteration_count st \<Longrightarrow> steps_ok (stored st c shot)"
  by (auto simp: steps_ok_def sorted_append)

lemma steps_ok_previous [simp]: "steps_ok (st\<lparr>previous_response_id := x\<rparr>) = steps_ok st"
  by (simp add: steps_ok_def)

lemma bounded_stored [simp]: "bounded cfg (stored st c shot) = bounded cfg st"
  by (simp add: bounded_def)

lemma bounded_previous [simp]: "bounded cfg (st\<lparr>previous_response_id := x\<rparr>) = bounded cfg st"
  by (simp add: bounded_def)

lemma execute_call_consistent:
  assumes c: "consistent cfg st tr" and i: "1 \<le> iteration_count st"
    and x: "execute_call env cfg c st tr = (r, st1, tr1)"
  shows "case r of Inl e \<Rightarrow> aborted cfg st1 tr1 | Inr response \<Rightarrow> consistent cfg st1 tr1"
proof -
  from c have p: "page st \<noteq> None" by (simp add: consistent_def bounded_def)
  from execute_call_observed [OF x p] obtain rep where
    rep: "if truthy (call_action c)
          then \<exists>m t. is_action_report (Log m t) \<and> rep = [Log m t] else rep = []"
    and alt: "(\<exists>e. r = Inl e \<and> st1 = st \<and> observed tr1 = observed tr @ rep) \<or>
            (\<exists>shot pre q reply.
               tr1 = pre @ [Post q reply] \<and> observed pre = observed tr @ rep \<and>
               ((\<exists>e. r = Inl e \<and> \<not> ok_reply reply \<and> st1 = stored st c shot) \<or>
                (\<exists>response status. r = Inr response \<and>
                   reply = HttpResponse status (Some response) \<and> is_success status \<and>
                   st1 = (stored st c shot)\<lparr>previous_response_id := response_id response\<rparr>)))"
    by blast
  from rep have rep_facts:
    "filter is_post rep = []" "list_all ok_post rep" "\<not> list_ex is_task_failed rep"
    "length (filter is_action_report rep) = (if truthy (call_action c) then 1 else 0)"
    by (auto split: if_splits dest: report_simps)
  from alt show ?thesis
  proof (elim disjE exE conjE)
    fix e
    assume "r = Inl e" "st1 = st" and o: "observed tr1 = observed tr @ rep"
    with c observed_eq [OF o] rep_facts show ?thesis
      by (auto simp: consistent_def aborted_def)
  next
    fix shot pre q reply e
    assume t: "tr1 = pre @ [Post q reply]" and o: "observed pre = observed tr @ rep"
      and "r = Inl e" "\<not> ok_reply reply" "st1 = stored st c shot"
    with c i observed_eq [OF o] rep_facts steps_ok_stored [of st c shot] show ?thesis
      by (auto simp: consistent_def aborted_def)
  next
    fix shot pre q reply response status
    assume t: "tr1 = pre @ [Post q reply]" and o: "observed pre = observed tr @ rep"
      and "r = Inr response" "reply = HttpResponse status (Some response)" "is_success status"
      "st1 = (stored st c shot)\<lparr>previous_response_id := response_id response\<rparr>"
    with c i observed_eq [OF o] rep_facts steps_ok_stored [of st c shot] show ?thesis
      by (auto simp: consistent_def)
  qed
qed

lemma execute_calls_consistent:
  assumes "consistent cfg st tr" and "1 \<le> iteration_count st"
    and "execute_calls env cfg cs response st tr = (r, st1, tr1)"
  shows "case r of Inl e \<Rightarrow> aborted cfg st1 tr1 | Inr response1 \<Rightarrow> consistent cfg st1 tr1"
  using assms
proof (induction cs arbitrary: response st tr)
  case Nil
  then show ?case by auto
next
  case (Cons c cs)
  obtain r0 st0 tr0 where c: "execute_call env cfg c st tr = (r0, st0, tr0)"
    by (cases "execute_call env cfg c st tr") auto
  note k = execute_call_keeps [OF c]
  note inv = execute_call_consistent [OF Cons.prems(1,2) c]
  show ?case
  proof (cases r0)
    case (Inl e)
    with Cons.prems c inv show ?thesis by auto
  next
    case (Inr response1)
    with Cons.prems c have "execute_calls env cfg cs response1 st0 tr0 = (r, st1, tr1)"
      by simp
    moreover from inv Inr have "consistent cfg st0 tr0" by simp
    moreover from k Cons.prems(2) have "1 \<le> iteration_count st0" by simp
    ultimately show ?thesis by (rule Cons.IH [rotated 2])
  qed
qed

lemma run_loop_stop:
  "completed st \<or> \<not> iteration_count st < max_iterations cfg \<Longrightarrow>
     run_loop env cfg response st tr = (None, st, tr)"
  by (subst run_loop.simps) (simp only: simp_thms if_False split: if_splits, blast)

lemma run_loop_step:
  assumes "\<not> completed st" "iteration_count st < max_iterations cfg"
    and "process_output (response_output response) [] tr = (cs, tr1)"
  shows "run_loop env cfg response st tr =
        (if cs = [] then (None, st\<lparr>iteration_count := iteration_count st + 1, completed := True\<rparr>,
                          send_log TaskCompletedNoMoreActions Agent tr1)
         else (case execute_calls env cfg cs response (st\<lparr>iteration_count := iteration_count st + 1\<rparr>) tr1 of
                 (Inl e, st2, tr2) \<Rightarrow> (Some e, st2, tr2)
               | (Inr response1, st2, tr2) \<Rightarrow> run_loop env cfg response1 st2 tr2))"
  apply (subst run_loop.simps)
  apply (simp only: assms simp_thms if_True Let_def prod.case)
  done

lemma run_loop_rule:
  assumes "I response st tr"
    and stop: "\<And>response st tr. I response st tr \<Longrightarrow>
        completed st \<or> \<not> iteration_count st < max_iterations cfg \<Longrightarrow> Q None st tr"
    and finish: "\<And>response st tr. I response st tr \<Longrightarrow> \<not> completed st \<Longrightarrow>
        iteration_count st < max_iterations cfg \<Longrightarrow>
        computer_calls_of (response_output response) = [] \<Longrightarrow>
        Q None (st\<lparr>iteration_count := iteration_count st + 1, completed := True\<rparr>)
          (send_log TaskCompletedNoMoreActions Agent
             (snd (process_output (response_output response) [] tr)))"
    and calls: "\<And>response st tr r st2 tr2. I response st tr \<Longrightarrow> \<not> completed st \<Longrightarrow>
        iteration_count st < max_iterations cfg \<Longrightarrow>
        computer_calls_of (response_output response) \<noteq> [] \<Longrightarrow>
        execute_calls env cfg (computer_calls_of (response_output response)) response
          (st\<lparr>iteration_count := iteration_count st + 1\<rparr>)
          (snd (process_output (response_output response) [] tr)) = (r, st2, tr2) \<Longrightarrow>
        (case r of Inl e \<Rightarrow> Q (Some e) st2 tr2 | Inr response1 \<Rightarrow> I response1 st2 tr2)"
  shows "case run_loop env cfg response st tr of (x, st', tr') \<Rightarrow> Q x st' tr'"
  using assms
proof (induction env cfg response st tr rule: run_loop.induct)
  case (1 env cfg response st tr)
  show ?case
  proof (cases "\<not> completed st \<and> iteration_count st < max_iterations cfg")
    case False
    then have stop: "completed st \<or> \<not> iteration_count st < max_iterations cfg" by blast
    from "1.prems"(2) [OF "1.prems"(1) stop] run_loop_stop [OF stop] show ?thesis
      by simp
  next
    case True
    define cs where "cs = computer_calls_of (response_output response)"
    define tr1 where "tr1 = snd (process_output (response_output response) [] tr)"
    define st1 where "st1 = st\<lparr>iteration_count := iteration_count st + 1\<rparr>"
    have po: "process_output (response_output response) [] tr = (cs, tr1)"
      using process_output_calls [of "response_output response" "[]" tr]
      by (simp add: cs_def tr1_def prod_eq_iff)
    from True have t: "\<not> completed st" "iteration_count st < max_iterations cfg" by simp_all
    note unfold = run_loop_step [OF t po, folded st1_def]
    show ?thesis
    proof (cases "cs = []")
      case empty: True
      from "1.prems"(3) [OF "1.prems"(1) t] empty
      have "Q None (st\<lparr>iteration_count := iteration_count st + 1, completed := True\<rparr>)
              (send_log TaskCompletedNoMoreActions Agent tr1)"
        by (simp add: cs_def tr1_def)
      with run_loop_step [OF t po] empty show ?thesis by simp
    next
      case nonempty: False
      obtain r st2 tr2 where ex: "execute_calls env cfg cs response st1 tr1 = (r, st2, tr2)"
        by (cases "execute_calls env cfg cs response st1 tr1") auto
      have step: "case r of Inl e \<Rightarrow> Q (Some e) st2 tr2 | Inr response1 \<Rightarrow> I response1 st2 tr2"
        by (rule "1.prems"(4) [OF "1.prems"(1) t nonempty [unfolded cs_def]
              ex [unfolded cs_def tr1_def st1_def]])
      show ?thesis
      proof (cases r)
        case (Inl e)
        with step unfold nonempty ex show ?thesis by simp
      next
        case (Inr response1)
        with step have "I response1 st2 tr2" by simp
        have ih: "case run_loop env cfg response1 st2 tr2 of (x, st', tr') \<Rightarrow> Q x st' tr'"
          using True st1_def po [symmetric] nonempty ex [symmetric] Inr refl \<open>I response1 st2 tr2\<close>
        proof (rule "1.IH")
          show "\<And>response st tr. I response st tr \<Longrightarrow>
              completed st \<or> \<not> iteration_count st < max_iterations cfg \<Longrightarrow> Q None st tr"
            by (rule "1.prems"(2))
        qed (rule "1.prems"(3), assumption+, rule "1.prems"(4), assumption+)
        with Inr unfold nonempty ex show ?thesis by simp
      qed
    qed
  qed
qed

lemma consistent_observed:
  "observed tr1 = observed tr \<Longrightarrow> consistent cfg st tr1 = consistent cfg st tr"
  using observed_eq [of tr1 tr "[]"] by (simp add: consistent_def)

lemma observed_completed_log [simp]:
  "observed (send_log TaskCompletedNoMoreActions Agent tr) = observed tr"
  by (simp add: send_log_def)

lemma consistent_next:
  "consistent cfg st tr \<Longrightarrow> iteration_count st < max_iterations cfg \<Longrightarrow>
     consistent cfg (st\<lparr>iteration_count := iteration_count st + 1\<rparr>) tr"
  by (auto simp: consistent_def bounded_def steps_ok_def recorded_def)

lemma consistent_completed [simp]:
  "consistent cfg (st\<lparr>completed := b\<rparr>) tr = consistent cfg st tr"
  by (simp add: consistent_def bounded_def steps_ok_def recorded_def)

definition loop_post :: "CUAConfig \<Rightarrow> exn option \<Rightarrow> CUAState \<Rightarrow> event list \<Rightarrow> bool" where
  "loop_post cfg x st tr =
     (case x of
        None \<Rightarrow> consistent cfg st tr \<and> (completed st \<or> max_iterations cfg \<le> iteration_count st)
      | Some e \<Rightarrow> aborted cfg st tr)"

lemma run_loop_consistent:
  assumes "consistent cfg st tr"
  shows "case run_loop env cfg response st tr of (x, st1, tr1) \<Rightarrow> loop_post cfg x st1 tr1"
  using assms
proof (rule run_loop_rule [where I = "\<lambda>response st tr. consistent cfg st tr"])
  fix response st tr
  assume "consistent cfg st tr" "completed st \<or> \<not> iteration_count st < max_iterations cfg"
  then show "loop_post cfg None st tr" by (auto simp: loop_post_def)
next
  fix response st tr
  assume c: "consistent cfg st tr" and "\<not> completed st"
    and i: "iteration_count st < max_iterations cfg"
  have "consistent cfg (st\<lparr>iteration_count := iteration_count st + 1\<rparr>)
          (send_log TaskCompletedNoMoreActions Agent
             (snd (process_output (response_output response) [] tr)))"
    using consistent_next [OF c i]
    by (subst consistent_observed [of _ tr]) (simp_all add: process_output_observed)
  then show "loop_post cfg None (st\<lparr>iteration_count := iteration_count st + 1, completed := True\<rparr>)
          (send_log TaskCompletedNoMoreActions Agent
             (snd (process_output (response_output response) [] tr)))"
    by (simp add: loop_post_def)
next
  fix response st tr r st2 tr2
  assume c: "consistent cfg st tr" and i: "iteration_count st < max_iterations cfg"
    and ex: "execute_calls env cfg (computer_calls_of (response_output response)) response
          (st\<lparr>iteration_count := iteration_count st + 1\<rparr>)
          (snd (process_output (response_output response) [] tr)) = (r, st2, tr2)"
  have c1: "consistent cfg (st\<lparr>iteration_count := iteration_count st + 1\<rparr>)
          (snd (process_output (response_output response) [] tr))"
    using consistent_next [OF c i]
    by (subst consistent_observed [of _ tr]) (simp_all add: process_output_observed)
  from c have "0 \<le> iteration_count st" by (simp add: consistent_def bounded_def)
  then have "1 \<le> iteration_count (st\<lparr>iteration_count := iteration_count st + 1\<rparr>)"
    by simp
  from execute_calls_consistent [OF c1 this ex]
  show "case r of Inl e \<Rightarrow> loop_post cfg (Some e) st2 tr2
        | Inr response1 \<Rightarrow> consistent cfg st2 tr2"
    by (cases r) (simp_all add: loop_post_def)
qed

lemma run_loop_keeps:
  "case run_loop env cfg response st tr of (x, st1, tr1) \<Rightarrow>
     error st1 = error st \<and> page st1 = page st \<and> prefix tr tr1"
proof (rule run_loop_rule [where I = "\<lambda>r s t. error s = error st \<and> page s = page st \<and> prefix tr t"
      and Q = "\<lambda>x s t. error s = error st \<and> page s = page st \<and> prefix tr t"])
  show "error st = error st \<and> page st = page st \<and> prefix tr tr" by simp
next
  fix response s t
  assume "error s = error st \<and> page s = page st \<and> prefix tr t"
  then show "error (s\<lparr>iteration_count := iteration_count s + 1, completed := True\<rparr>) = error st \<and>
       page (s\<lparr>iteration_count := iteration_count s + 1, completed := True\<rparr>) = page st \<and>
       prefix tr (send_log TaskCompletedNoMoreActions Agent
             (snd (process_output (response_output response) [] t)))"
    using process_output_prefix [of t "response_output response" "[]"]
    by (auto simp: send_log_def prefix_def)
next
  fix response s t r st2 tr2
  assume inv: "error s = error st \<and> page s = page st \<and> prefix tr t"
    and ex: "execute_calls env cfg (computer_calls_of (response_output response)) response
          (s\<lparr>iteration_count := iteration_count s + 1\<rparr>)
          (snd (process_output (response_output response) [] t)) = (r, st2, tr2)"
  from execute_calls_keeps [OF ex] execute_calls_prefix [OF ex] inv
    process_output_prefix [of t "response_output response" "[]"]
  have "error st2 = error st \<and> page st2 = page st \<and> prefix tr tr2"
    by (auto simp: prefix_def)
  then show "case r of Inl e \<Rightarrow> error st2 = error st \<and> page st2 = page st \<and> prefix tr tr2
        | Inr response1 \<Rightarrow> error st2 = error st \<and> page st2 = page st \<and> prefix tr tr2"
    by (cases r) simp_all
qed simp

definition single_call :: "env \<Rightarrow> bool" where
  "single_call env =
     (\<forall>tr q status r. http_post env tr q = HttpResponse status (Some r) \<longrightarrow>
        length (computer_calls_of (response_output r)) \<le> 1)"

definition in_step :: "response \<Rightarrow> CUAState \<Rightarrow> event list \<Rightarrow> bool" where
  "in_step response st tr =
     (length (computer_calls_of (response_output response)) \<le> 1 \<and> \<not> completed st \<and>
      page st \<noteq> None \<and>
      int (length (screenshots st)) = iteration_count st \<and>
      map step (screenshots st) = [1..iteration_count st] \<and>
      int (length (action_reports tr)) \<le> iteration_count st)"

definition numbered :: "exn option \<Rightarrow> CUAState \<Rightarrow> event list \<Rightarrow> bool" where
  "numbered x st tr =
     (map step (screenshots st) = [1..int (length (screenshots st))] \<and>
      int (length (action_reports tr)) \<le> iteration_count st \<and>
      (case x of
         None \<Rightarrow> int (length (screenshots st)) =
                  (if completed st then iteration_count st - 1 else iteration_count st)
       | Some e \<Rightarrow> iteration_count st - 1 \<le> int (length (screenshots st)) \<and>
                  int (length (screenshots st)) \<le> iteration_count st))"

lemma execute_call_reports:
  assumes "execute_call env cfg c st tr = (r, st1, tr1)" and "page st \<noteq> None"
  shows "length (action_reports tr1) \<le> Suc (length (action_reports tr))"
proof -
  from execute_call_observed [OF assms] obtain rep where
    rep: "if truthy (call_action c)
          then \<exists>m t. is_action_report (Log m t) \<and> rep = [Log m t] else rep = []"
    and alt: "(\<exists>e. r = Inl e \<and> st1 = st \<and> observed tr1 = observed tr @ rep) \<or>
            (\<exists>shot pre q reply.
               tr1 = pre @ [Post q reply] \<and> observed pre = observed tr @ rep \<and>
               ((\<exists>e. r = Inl e \<and> \<not> ok_reply reply \<and> st1 = stored st c shot) \<or>
                (\<exists>response status. r = Inr response \<and>
                   reply = HttpResponse status (Some response) \<and> is_success status \<and>
                   st1 = (stored st c shot)\<lparr>previous_response_id := response_id response\<rparr>)))"
    by blast
  from rep have len: "length (filter is_action_report rep) \<le> 1"
    by (auto split: if_splits)
  from alt show ?thesis
  proof (elim disjE exE conjE)
    fix e
    assume o: "observed tr1 = observed tr @ rep"
    from observed_eq(2) [OF o] len show ?thesis by simp
  next
    fix shot pre q reply e
    assume t: "tr1 = pre @ [Post q reply]" and o: "observed pre = observed tr @ rep"
    from observed_eq(2) [OF o] len t show ?thesis by simp
  next
    fix shot pre q reply response status
    assume t: "tr1 = pre @ [Post q reply]" and o: "observed pre = observed tr @ rep"
    from observed_eq(2) [OF o] len t show ?thesis by simp
  qed
qed

lemma execute_call_in_step:
  assumes sc: "single_call env"
    and len: "int (length (screenshots st)) = iteration_count st - 1"
    and steps: "map step (screenshots st) = [1..iteration_count st - 1]"
    and nc: "\<not> completed st" and p: "page st \<noteq> None"
    and reps: "int (length (action_reports tr)) \<le> iteration_count st - 1"
    and x: "execute_call env cfg c st tr = (r, st1, tr1)"
  shows "case r of Inl e \<Rightarrow> numbered (Some e) st1 tr1 | Inr response1 \<Rightarrow> in_step response1 st1 tr1"
proof -
  from execute_call_reports [OF x p] reps
  have r1: "int (length (action_reports tr1)) \<le> iteration_count st" by simp
  from execute_call_keeps [OF x] have k: "iteration_count st1 = iteration_count st" by simp
  from x show ?thesis
  proof (cases rule: execute_call_cases)
    case (action_failed e)
    with len steps r1 show ?thesis by (simp add: numbered_def)
  next
    case (capture_failed e tr2)
    with len steps r1 show ?thesis by (simp add: numbered_def)
  next
    case (post_failed e tr2 shot tr3)
    from len have "1 \<le> iteration_count st" by linarith
    then have "[1..iteration_count st - 1] @ [iteration_count st] = [1..iteration_count st]"
      using upto_rec2 [of 1 "iteration_count st"] by simp
    with post_failed len steps r1 show ?thesis by (simp add: numbered_def)
  next
    case (ok tr2 shot tr3 response)
    from len have "1 \<le> iteration_count st" by linarith
    then have u: "[1..iteration_count st - 1] @ [iteration_count st] = [1..iteration_count st]"
      using upto_rec2 [of 1 "iteration_count st"] by simp
    from post_request_Inr [OF ok(3)] sc
    have "length (computer_calls_of (response_output response)) \<le> 1"
      by (auto simp: single_call_def)
    with ok len steps nc p u r1 show ?thesis by (simp add: in_step_def)
  qed
qed

lemma action_reports_eq_observed:
  "observed tr1 = observed tr \<Longrightarrow> action_reports tr1 = action_reports tr"
  using observed_eq(2) [of tr1 tr "[]"] by simp

lemma run_loop_numbered:
  assumes sc: "single_call env" and "in_step response st tr"
  shows "case run_loop env cfg response st tr of (x, st1, tr1) \<Rightarrow> numbered x st1 tr1"
  using assms(2)
proof (rule run_loop_rule [where I = "\<lambda>response st tr. in_step response st tr"])
  fix response st tr
  assume "in_step response st tr" "completed st \<or> \<not> iteration_count st < max_iterations cfg"
  then show "numbered None st tr" by (auto simp: in_step_def numbered_def)
next
  fix response st and tr :: "event list"
  assume "in_step response st tr"
  moreover have "action_reports (send_log TaskCompletedNoMoreActions Agent
             (snd (process_output (response_output response) [] tr))) = action_reports tr"
    by (rule action_reports_eq_observed) (simp add: process_output_observed)
  ultimately
  show "numbered None (st\<lparr>iteration_count := iteration_count st + 1, completed := True\<rparr>)
          (send_log TaskCompletedNoMoreActions Agent
             (snd (process_output (response_output response) [] tr)))"
    by (auto simp: in_step_def numbered_def)
next
  fix response st tr r st2 tr2
  assume i: "in_step response st tr"
    and ne: "computer_calls_of (response_output response) \<noteq> []"
    and ex: "execute_calls env cfg (computer_calls_of (response_output response)) response
          (st\<lparr>iteration_count := iteration_count st + 1\<rparr>)
          (snd (process_output (response_output response) [] tr)) = (r, st2, tr2)"
  let ?tr = "snd (process_output (response_output response) [] tr)"
  let ?st = "st\<lparr>iteration_count := iteration_count st + 1\<rparr>"
  from i ne obtain c where c: "computer_calls_of (response_output response) = [c]"
    by (cases "computer_calls_of (response_output response)") (auto simp: in_step_def)
  obtain r0 st0 tr0 where x: "execute_call env cfg c ?st ?tr = (r0, st0, tr0)"
    by (cases "execute_call env cfg c ?st ?tr") auto
  from ex c x have same: "r = r0" "st2 = st0" "tr2 = tr0"
    by (auto split: sum.splits)
  have "action_reports ?tr = action_reports tr"
    by (rule action_reports_eq_observed) (simp add: process_output_observed)
  with i have "case r0 of Inl e \<Rightarrow> numbered (Some e) st0 tr0
      | Inr response1 \<Rightarrow> in_step response1 st0 tr0"
    by (intro execute_call_in_step [OF sc _ _ _ _ _ x]) (simp_all add: in_step_def)
  then show "case r of Inl e \<Rightarrow> numbered (Some e) st2 tr2
      | Inr response1 \<Rightarrow> in_step response1 st2 tr2"
    unfolding same .
qed

definition fresh :: "CUAState \<Rightarrow> bool" where
  "fresh st =
     (previous_response_id st = None \<and> screenshots st = [] \<and> \<not> completed st \<and>
      error st = None \<and> iteration_count st = 0)"

lemma goto_initial_url_observed:
  "goto_initial_url env url tr = (x, tr1) \<Longrightarrow> observed tr1 = observed tr"
  by (auto simp: goto_initial_url_def page_do_def send_log_def split: option.splits if_splits)

lemma observed_starting [simp]: "observed (send_log (StartingTask task) Agent tr) = observed tr"
  by (simp add: send_log_def)

lemma observed_empty_ok:
  "observed tr = [] \<Longrightarrow> list_all ok_post tr \<and> \<not> list_ex is_task_failed tr \<and>
     posts tr = [] \<and> action_reports tr = []"
  using observed_eq [of tr "[]" "[]"] by (simp add: posts_def action_reports_def)

lemma run_task_try_post:
  assumes f: "fresh st" and p: "page st \<noteq> None" and o: "observed tr = []"
    and x: "run_task_try env cfg task shot st tr = (x, st1, tr1)"
  shows "loop_post cfg x st1 tr1 \<and> error st1 = None \<and> page st1 = page st"
proof (cases "post_request env (initial_request cfg task shot) tr")
  case (Pair r0 tr0)
  note t = post_request_trace [OF Pair]
  show ?thesis
  proof (cases r0)
    case (Inl e)
    with Pair x have same: "x = Some e" "st1 = st" "tr1 = tr0"
      by (simp_all add: run_task_try_def)
    from post_request_Inl [OF Pair [unfolded Inl]] t observed_empty_ok [OF o] f p
    have "aborted cfg st tr0"
      by (auto simp: aborted_def bounded_def steps_ok_def recorded_def fresh_def)
    with same f show ?thesis by (simp add: loop_post_def fresh_def)
  next
    case (Inr response)
    let ?st = "st\<lparr>previous_response_id := response_id response\<rparr>"
    from Inr Pair x have loop: "run_loop env cfg response ?st tr0 = (x, st1, tr1)"
      by (simp add: run_task_try_def)
    from post_request_Inr_ok [OF Pair [unfolded Inr]] t observed_empty_ok [OF o] f p
    have "consistent cfg ?st tr0"
      by (auto simp: consistent_def bounded_def steps_ok_def recorded_def fresh_def)
    from run_loop_consistent [OF this, where env = env and response = response] loop
    have "loop_post cfg x st1 tr1" by simp
    moreover from run_loop_keeps [where env = env and cfg = cfg and response = response
        and st = ?st and tr = tr0] loop f
    have "error st1 = None \<and> page st1 = page st" by (simp add: fresh_def)
    ultimately show ?thesis by simp
  qed
qed

text \<open>the ways run_task ends\<close>

lemma run_task_cases [consumes 1, case_names no_page raised returned failed]:
  assumes "run_task env self task url tr = (res, self1, tr1)"
  obtains
    (no_page) e where "page (state self) = None" "res = Inl e" "self1 = self" "tr1 = tr"
  | (raised) e where "page (state self) \<noteq> None" "res = Inl e" "self1 = self"
      "observed tr1 = observed tr"
  | (returned) shot tr2 st where "page (state self) \<noteq> None" "observed tr2 = observed tr"
      "run_task_try env (config self) task shot (state self) tr2 = (None, st, tr1)"
      "res = Inr (loop_result st)" "self1 = self\<lparr>state := st\<rparr>"
  | (failed) shot tr2 st e tr3 where "page (state self) \<noteq> None" "observed tr2 = observed tr"
      "run_task_try env (config self) task shot (state self) tr2 = (Some e, st, tr3)"
      "res = Inr (error_result st e)" "self1 = self\<lparr>state := st\<lparr>error := Some (str e)\<rparr>\<rparr>"
      "tr1 = tr3 @ [Log (TaskFailed (str e)) Status]"
proof (cases "page (state self) = None")
  case True
  with assms show ?thesis by (auto simp: run_task_def intro: no_page)
next
  case False
  obtain g tr0 where g: "goto_initial_url env url tr = (g, tr0)"
    by (cases "goto_initial_url env url tr") auto
  note go = goto_initial_url_observed [OF g]
  show ?thesis
  proof (cases g)
    case (Some e)
    with assms False g go show ?thesis by (auto simp: run_task_def intro: raised)
  next
    case None
    obtain c tr2 where c: "capture_screenshot env (state self) tr0 = (c, tr2)"
      by (cases "capture_screenshot env (state self) tr0") auto
    note co = capture_screenshot_observed [OF c]
    show ?thesis
    proof (cases c)
      case (Inl e)
      with assms False g None c go co show ?thesis
        by (auto simp: run_task_def intro: raised)
    next
      case (Inr shot)
      obtain x st tr3 where t: "run_task_try env (config self) task shot (state self)
          (send_log (StartingTask task) Agent tr2) = (x, st, tr3)"
        by (cases "run_task_try env (config self) task shot (state self)
          (send_log (StartingTask task) Agent tr2)") auto
      have o: "observed (send_log (StartingTask task) Agent tr2) = observed tr"
        using go co by simp
      show ?thesis
      proof (cases x)
        case None
        with assms False g \<open>g = None\<close> c Inr t show ?thesis
          by (auto simp: run_task_def intro: returned [OF False o])
      next
        case (Some e)
        with assms False g \<open>g = None\<close> c Inr t show ?thesis
          by (auto simp: run_task_def send_log_def intro: failed [OF False o])
      qed
    qed
  qed
qed

lemma run_task_try_keeps:
  assumes "run_task_try env cfg task shot st tr = (x, st1, tr1)"
  shows "error st1 = error st \<and> page st1 = page st \<and> prefix tr tr1"
proof (cases "post_request env (initial_request cfg task shot) tr")
  case (Pair r0 tr0)
  note t = post_request_trace [OF Pair]
  show ?thesis
  proof (cases r0)
    case (Inl e)
    with Pair assms t show ?thesis by (auto simp: run_task_try_def)
  next
    case (Inr response)
    with Pair assms have "run_loop env cfg response
        (st\<lparr>previous_response_id := response_id response\<rparr>) tr0 = (x, st1, tr1)"
      by (simp add: run_task_try_def)
    with run_loop_keeps [where env = env and cfg = cfg and response = response
        and st = "st\<lparr>previous_response_id := response_id response\<rparr>" and tr = tr0] t
    show ?thesis by (auto simp: prefix_def)
  qed
qed

lemma run_task_try_numbered:
  assumes f: "fresh st" and p: "page st \<noteq> None" and o: "observed tr = []"
    and sc: "single_call env"
    and x: "run_task_try env cfg task shot st tr = (x, st1, tr1)"
  shows "numbered x st1 tr1"
proof (cases "post_request env (initial_request cfg task shot) tr")
  case (Pair r0 tr0)
  note t = post_request_trace [OF Pair]
  from observed_empty_ok [OF o] t have reps: "action_reports tr0 = []" by simp
  show ?thesis
  proof (cases r0)
    case (Inl e)
    with Pair x have same: "x = Some e" "st1 = st" "tr1 = tr0"
      by (simp_all add: run_task_try_def)
    with f reps show ?thesis by (simp add: numbered_def fresh_def)
  next
    case (Inr response)
    let ?st = "st\<lparr>previous_response_id := response_id response\<rparr>"
    from Inr Pair x have loop: "run_loop env cfg response ?st tr0 = (x, st1, tr1)"
      by (simp add: run_task_try_def)
    from post_request_Inr [OF Pair [unfolded Inr]] sc
    have "length (computer_calls_of (response_output response)) \<le> 1"
      by (auto simp: single_call_def)
    with f p reps have "in_step response ?st tr0"
      by (simp add: in_step_def fresh_def)
    from run_loop_numbered [OF sc this, of cfg] loop show ?thesis by simp
  qed
qed

text \<open>what is known of a run of a new agent that returns a dictionary\<close>

lemma run_task_fresh:
  assumes f: "fresh (state self)"
    and run: "run_task env self task url [] = (Inr r, self1, tr1)"
  shows "\<exists>x st tr3.
    loop_post (config self) x st tr3 \<and> error st = None \<and>
    (single_call env \<longrightarrow> numbered x st tr3) \<and>
    (case x of
       None \<Rightarrow> r = loop_result st \<and> tr1 = tr3
     | Some e \<Rightarrow> r = error_result st e \<and> tr1 = tr3 @ [Log (TaskFailed (str e)) Status])"
  using run
proof (cases rule: run_task_cases)
  case (no_page e)
  then show ?thesis by simp
next
  case (raised e)
  then show ?thesis by simp
next
  case (returned shot tr2 st)
  from returned(2) have o: "observed tr2 = []" by simp
  from run_task_try_post [OF f returned(1) o returned(3)]
    run_task_try_numbered [OF f returned(1) o _ returned(3)] returned(4)
  show ?thesis by (intro exI [of _ None] exI [of _ st] exI [of _ tr1]) simp
next
  case (failed shot tr2 st e tr3)
  from failed(2) have o: "observed tr2 = []" by simp
  from run_task_try_post [OF f failed(1) o failed(3)]
    run_task_try_numbered [OF f failed(1) o _ failed(3)] failed(4,6)
  show ?thesis by (intro exI [of _ "Some e"] exI [of _ st] exI [of _ tr3]) simp
qed

lemma posts_failed_log [simp]: "posts (tr @ [Log m t]) = posts tr"
  by (simp add: posts_def)

lemma reports_failed_log [simp]:
  "action_reports (tr @ [Log (TaskFailed m) t]) = action_reports tr"
  by (simp add: action_reports_def)

lemma loop_result_simps [simp]:
  "iterations (loop_result st) = iteration_count st"
  "result_screenshots (loop_result st) = screenshots st"
  "result_completed (loop_result st) = completed st"
  "result_error (loop_result st) = error st"
  by (simp_all add: loop_result_def)

lemma error_result_simps [simp]:
  "iterations (error_result st e) = iteration_count st"
  "result_screenshots (error_result st e) = screenshots st"
  "result_completed (error_result st e) = False"
  "result_error (error_result st e) = Some (str e)"
  by (simp_all add: error_result_def)

lemma ok_reply_success: "ok_reply (HttpResponse status body) \<Longrightarrow> is_success status"
  by (cases body) simp_all

lemma posts_subset: "set (posts tr) \<subseteq> set tr"
  by (auto simp: posts_def)

lemma bad_post_not_all_ok:
  "e \<in> set (posts tr) \<Longrightarrow> \<not> ok_post e \<Longrightarrow> \<not> list_all ok_post tr"
  using posts_subset [of tr] by (auto simp: list_all_iff)

section \<open>The claims\<close>

subsection \<open>Concrete runs\<close>

text \<open>
  The agents and environments of the examples below. \<open>new_agent n\<close> is the agent
  the caller builds, \<^verbatim>\<open>OpenAICUA(api_key, CUAConfig(max_iterations=n))\<close> followed by
  \<^verbatim>\<open>initialize_browser\<close>. In every environment the screenshot is \<open>''img''\<close> and the
  page is at \<open>''http://x''\<close>; no example presses a key, so that \<open>str_upper\<close> is never
  consulted.
\<close>

definition new_agent :: "int \<Rightarrow> OpenAICUA" where
  "new_agent n =
     initialize_browser
       (OpenAICUA_init ''key'' (Some (CUAConfig_default\<lparr>max_iterations := n\<rparr>)) None) 0 0"

definition call_of :: "action \<Rightarrow> computer_call" where
  "call_of a = \<lparr>call_id = Some ''call_1'', call_action = Some a, pending_safety_checks = []\<rparr>"

definition reply_with :: "computer_call list \<Rightarrow> http_reply" where
  "reply_with calls =
     HttpResponse 200 (Some \<lparr>response_id = Some ''resp_1'', response_output = map ComputerCall calls\<rparr>)"

definition service :: "(event list \<Rightarrow> page_op \<Rightarrow> exn option) \<Rightarrow> (request \<Rightarrow> http_reply) \<Rightarrow> env" where
  "service page_fails answer =
     \<lparr>page_result = page_fails, screenshot_data = (\<lambda>tr. ''img''),
      page_url = (\<lambda>tr. ''http://x''), http_post = (\<lambda>tr. answer),
      str_upper = (\<lambda>s. s)\<rparr>"

text \<open>The page never fails and every response has no computer call.\<close>

definition env_done :: env where
  "env_done = service (\<lambda>tr op. None) (\<lambda>q. reply_with [])"

text \<open>The page never fails and every response asks for one \<^verbatim>\<open>wait\<close>.\<close>

definition env_always_wait :: env where
  "env_always_wait = service (\<lambda>tr op. None) (\<lambda>q. reply_with [call_of [(''type'', PStr ''wait'')]])"

text \<open>The first response asks for a click at (100, 200), the later ones for nothing.\<close>

definition env_click_then_done :: env where
  "env_click_then_done =
     service (\<lambda>tr op. None)
       (\<lambda>q. if req_previous_response_id q = None
            then reply_with [call_of [(''type'', PStr ''click''), (''x'', PInt 100), (''y'', PInt 200)]]
            else reply_with [])"

text \<open>The first response carries two computer calls, the later ones none.\<close>

definition env_two_calls :: env where
  "env_two_calls =
     service (\<lambda>tr op. None)
       (\<lambda>q. if req_previous_response_id q = None
            then reply_with [call_of [(''type'', PStr ''wait'')], call_of [(''type'', PStr ''screenshot'')]]
            else reply_with [])"

text \<open>The first response asks for a \<^verbatim>\<open>wait\<close>; the second request is answered with status 500.\<close>

definition env_second_request_fails :: env where
  "env_second_request_fails =
     service (\<lambda>tr op. None)
       (\<lambda>q. if req_previous_response_id q = None
            then reply_with [call_of [(''type'', PStr ''wait'')]]
            else HttpResponse 500 None)"

text \<open>Every response asks for a click, and the click raises a timeout.\<close>

definition env_click_raises :: env where
  "env_click_raises =
     service (\<lambda>tr op. case op of MouseClick x y b \<Rightarrow> Some (Exn PlaywrightError ''Timeout 30000ms exceeded'') | _ \<Rightarrow> None)
       (\<lambda>q. reply_with [call_of [(''type'', PStr ''click'')]])"

text \<open>Every request is answered with status 500.\<close>

definition env_unavailable :: env where
  "env_unavailable = service (\<lambda>tr op. None) (\<lambda>q. HttpResponse 500 None)"

text \<open>The navigation fails; nothing else does, and no response has a computer call.\<close>

definition env_no_network :: env where
  "env_no_network =
     service (\<lambda>tr op. case op of Goto u \<Rightarrow> Some (Exn PlaywrightError ''net::ERR_NAME_NOT_RESOLVED'') | _ \<Rightarrow> None)
       (\<lambda>q. reply_with [])"

text \<open>
  The first response asks for a \<^verbatim>\<open>wait\<close> and carries one pending safety check; the later
  ones have no computer call.
\<close>

definition env_safety_check :: env where
  "env_safety_check =
     service (\<lambda>tr op. None)
       (\<lambda>q. if req_previous_response_id q = None
            then reply_with
              [\<lparr>call_id = Some ''call_1'', call_action = Some [(''type'', PStr ''wait'')],
                pending_safety_checks =
                  [\<lparr>check_id = Some ''sc_1'', check_code = Some ''malicious_instructions'',
                    message = Some ''Check the page''\<rparr>]\<rparr>]
            else reply_with [])"

text \<open>
  The first response asks for a \<^verbatim>\<open>hover\<close>, which \<^verbatim>\<open>execute_action\<close> does not know; the
  later ones have no computer call.
\<close>

definition env_hover_then_done :: env where
  "env_hover_then_done =
     service (\<lambda>tr op. None)
       (\<lambda>q. if req_previous_response_id q = None
            then reply_with [call_of [(''type'', PStr ''hover'')]]
            else reply_with [])"


text \<open>Facts on the examples.\<close>

lemma single_call_always_wait: "single_call env_always_wait"
  by (simp add: single_call_def env_always_wait_def service_def reply_with_def call_of_def)

lemma fresh_new_agent: "fresh (state (new_agent n))"
  by (simp add: fresh_def new_agent_def initialize_browser_def OpenAICUA_init_def
      CUAState_default_def)

lemma max_iterations_new_agent: "max_iterations (config (new_agent n)) = n"
  by (simp add: new_agent_def initialize_browser_def OpenAICUA_init_def)

lemma run_triple: "fst p = a \<Longrightarrow> p = (a, fst (snd p), snd (snd p))"
  by (simp add: prod_eq_iff)

lemma page_new_agent: "page (state (new_agent n)) \<noteq> None"
  by (simp add: new_agent_def initialize_browser_def)

subsection \<open>C1: the bound on the work of one run\<close>

text \<open>
  C1 (as amended). For a run of a new agent with \<open>max_iterations = N\<close>, \<open>N \<ge> 0\<close>, that
  returns a dictionary: its \<open>iterations\<close> field is at most \<open>N\<close>. When every response of
  the service carries at most one computer call, the run executes at most as many
  actions, stores at most as many observations and sends at most as many follow-up
  requests as it counts iterations (one more request with the first one): at most \<open>N\<close>
  request/action/observe cycles.
\<close>

theorem run_task_bounded:
  assumes "fresh (state self)"
    and "run_task env self task url [] = (Inr r, self1, tr1)"
    and "0 \<le> max_iterations (config self)"
  shows "iterations r \<le> max_iterations (config self) \<and>
         (single_call env \<longrightarrow>
            int (length (result_screenshots r)) \<le> iterations r \<and>
            int (length (action_reports tr1)) \<le> iterations r \<and>
            int (length (posts tr1)) \<le> iterations r + 1)"
proof -
  from run_task_fresh [OF assms(1,2)] obtain x st tr3 where
    post: "loop_post (config self) x st tr3"
    and num: "single_call env \<longrightarrow> numbered x st tr3"
    and res: "case x of
       None \<Rightarrow> r = loop_result st \<and> tr1 = tr3
     | Some e \<Rightarrow> r = error_result st e \<and> tr1 = tr3 @ [Log (TaskFailed (str e)) Status]"
    by blast
  show ?thesis
  proof (cases x)
    case None
    with post have c: "consistent (config self) st tr3" by (simp add: loop_post_def)
    from res None have r: "r = loop_result st" "tr1 = tr3" by simp_all
    from c assms(3) have "iterations r \<le> max_iterations (config self)"
      by (simp add: r consistent_def bounded_def)
    moreover from c num None have "single_call env \<Longrightarrow>
        int (length (result_screenshots r)) \<le> iterations r \<and>
        int (length (action_reports tr1)) \<le> iterations r \<and>
        int (length (posts tr1)) \<le> iterations r + 1"
      by (auto simp: r consistent_def numbered_def split: if_splits)
    ultimately show ?thesis by blast
  next
    case (Some e)
    with post have a: "aborted (config self) st tr3" by (simp add: loop_post_def)
    from res Some have r: "r = error_result st e"
      "tr1 = tr3 @ [Log (TaskFailed (str e)) Status]" by simp_all
    from a assms(3) have "iterations r \<le> max_iterations (config self)"
      by (simp add: r aborted_def bounded_def)
    moreover from a num Some have "single_call env \<Longrightarrow>
        int (length (result_screenshots r)) \<le> iterations r \<and>
        int (length (action_reports tr1)) \<le> iterations r \<and>
        int (length (posts tr1)) \<le> iterations r + 1"
      by (auto simp: r aborted_def numbered_def)
    ultimately show ?thesis by blast
  qed
qed

text \<open>
  The spec's scenario: \<open>max_iterations = 3\<close> and a service that always asks for a
  \<^verbatim>\<open>wait\<close> give three observations, three actions and four requests.
\<close>

definition three_waits :: task_result where
  "three_waits =
     \<lparr>result = ''Task stopped after 3 iterations'',
      result_screenshots =
        [\<lparr>step = 1, screenshot = ''img'', action = Some [(''type'', PStr ''wait'')]\<rparr>,
         \<lparr>step = 2, screenshot = ''img'', action = Some [(''type'', PStr ''wait'')]\<rparr>,
         \<lparr>step = 3, screenshot = ''img'', action = Some [(''type'', PStr ''wait'')]\<rparr>],
      iterations = 3, result_completed = False, result_error = None\<rparr>"

lemma run_always_wait: "fst (run_task env_always_wait (new_agent 3) ''task'' None []) = Inr three_waits"
  by code_simp

theorem run_task_bounded_witness:
  "fresh (state (new_agent 3)) \<and>
   fst (run_task env_always_wait (new_agent 3) ''task'' None []) = Inr three_waits \<and>
   0 \<le> max_iterations (config (new_agent 3)) \<and>
   iterations three_waits \<le> max_iterations (config (new_agent 3)) \<and>
   single_call env_always_wait \<and>
   int (length (result_screenshots three_waits)) \<le> iterations three_waits \<and>
   int (length (action_reports (snd (snd (run_task env_always_wait (new_agent 3) ''task'' None [])))))
     \<le> iterations three_waits \<and>
   int (length (posts (snd (snd (run_task env_always_wait (new_agent 3) ''task'' None [])))))
     \<le> iterations three_waits + 1"
  using run_task_bounded [OF fresh_new_agent run_triple [OF run_always_wait]]
    fresh_new_agent run_always_wait single_call_always_wait
  by (simp add: max_iterations_new_agent)

text \<open>
  The claim as stated fails. With \<open>max_iterations = 1\<close> and a first response of two
  computer calls the single iteration executes two actions, stores two observations
  and sends two follow-up requests; and with \<open>max_iterations = -1\<close> the result counts
  0 iterations, more than the limit.
\<close>

theorem run_task_bounded_counterexample:
  "max_iterations (config (new_agent 1)) = 1 \<and>
   fst (run_task env_two_calls (new_agent 1) ''task'' None []) =
     Inr \<lparr>result = ''Task stopped after 1 iterations'',
          result_screenshots =
            [\<lparr>step = 1, screenshot = ''img'', action = Some [(''type'', PStr ''wait'')]\<rparr>,
             \<lparr>step = 1, screenshot = ''img'', action = Some [(''type'', PStr ''screenshot'')]\<rparr>],
          iterations = 1, result_completed = False, result_error = None\<rparr> \<and>
   length (action_reports (snd (snd (run_task env_two_calls (new_agent 1) ''task'' None [])))) = 2 \<and>
   length (posts (snd (snd (run_task env_two_calls (new_agent 1) ''task'' None [])))) = 3 \<and>
   max_iterations (config (new_agent (- 1))) = - 1 \<and>
   fst (run_task env_done (new_agent (- 1)) ''task'' None []) =
     Inr \<lparr>result = ''Task stopped after 0 iterations'', result_screenshots = [],
          iterations = 0, result_completed = False, result_error = None\<rparr>"
  by code_simp

subsection \<open>C2: the observation history\<close>







subsection \<open>C3: a request that the service refuses\<close>

text \<open>
  C3 (as amended). For a run of a new agent in which the service answers the k-th
  request with a status outside 200..299: \<^verbatim>\<open>run_task\<close> returns a dictionary with
  \<open>completed = false\<close>, a populated error field and a history of \<open>k - 1\<close> entries; the
  refused request is the last thing the run does before it logs the failure, so that
  nothing is executed after it, and the actions executed before it are as many as the
  entries with a non-empty action.
\<close>

theorem run_task_http_failure:
  assumes "fresh (state self)"
    and "run_task env self task url [] = (res, self1, tr1)"
    and "0 < k" and "k \<le> length (posts tr1)"
    and "posts tr1 ! (k - 1) = Post q (HttpResponse status body)"
    and "\<not> is_success status"
  shows "\<exists>r. res = Inr r \<and> \<not> result_completed r \<and> result_error r \<noteq> None \<and>
           length (result_screenshots r) = k - 1 \<and>
           length (action_reports tr1) =
             length (filter (\<lambda>e. truthy (action e)) (result_screenshots r)) \<and>
           (\<exists>pre m. tr1 = pre @ [Post q (HttpResponse status body), Log (TaskFailed m) Status])"
proof -
  let ?bad = "Post q (HttpResponse status body)"
  from assms(3,4,5) have mem: "?bad \<in> set (posts tr1)"
    by (metis One_nat_def Suc_pred less_eq_Suc_le nth_mem)
  from assms(6) have bad: "\<not> ok_post ?bad" by (auto dest: ok_reply_success)
  from assms(2) show ?thesis
  proof (cases rule: run_task_cases)
    case (no_page e)
    with mem show ?thesis by (simp add: posts_def)
  next
    case (raised e)
    then have "observed tr1 = []" by simp
    from observed_empty_ok [OF this] mem show ?thesis by simp
  next
    case (returned shot tr2 st)
    from returned(2) have o: "observed tr2 = []" by simp
    from run_task_try_post [OF assms(1) returned(1) o returned(3)]
    have "list_all ok_post tr1" by (simp add: loop_post_def consistent_def)
    with bad_post_not_all_ok [OF mem bad] show ?thesis by simp
  next
    case (failed shot tr2 st e tr3)
    from failed(2) have o: "observed tr2 = []" by simp
    from run_task_try_post [OF assms(1) failed(1) o failed(3)]
    have a: "aborted (config self) st tr3" by (simp add: loop_post_def)
    from failed(6) have p13: "posts tr1 = posts tr3" by simp
    from a have len: "length (posts tr3) = Suc (length (screenshots st))"
      by (simp add: aborted_def)
    from a consider (ok) "list_all ok_post tr3"
      | (last) pre q1 reply where "tr3 = pre @ [Post q1 reply]" "\<not> ok_reply reply"
          "list_all ok_post pre" "length (action_reports tr3) = recorded st"
      by (auto simp: aborted_def)
    then show ?thesis
    proof cases
      case ok
      with bad_post_not_all_ok [OF mem [unfolded p13] bad] show ?thesis by simp
    next
      case last
      from last(1) have p3: "posts tr3 = posts pre @ [Post q1 reply]" by simp
      have k1: "k - 1 = length (posts pre)"
      proof (rule ccontr)
        assume "k - 1 \<noteq> length (posts pre)"
        with assms(4) p13 p3 have lt: "k - 1 < length (posts pre)" by simp
        with assms(5) p13 p3 have "posts pre ! (k - 1) = ?bad"
          by (simp add: nth_append)
        with nth_mem [OF lt] have "?bad \<in> set (posts pre)" by simp
        from bad_post_not_all_ok [OF this bad] last(3) show False by simp
      qed
      with assms(5) p13 p3 have same: "Post q1 reply = ?bad" by (simp add: nth_append)
      from len p3 k1 have "length (screenshots st) = k - 1" by simp
      with failed(4,6) last(1,4) same show ?thesis
        by (simp add: recorded_def action_reports_def)
    qed
  qed
qed

text \<open>A \<^verbatim>\<open>wait\<close>, then the second request is answered with status 500.\<close>

definition waited_once :: task_result where
  "waited_once =
     \<lparr>result = ''Error: HTTP status 500'',
      result_screenshots =
        [\<lparr>step = 1, screenshot = ''img'', action = Some [(''type'', PStr ''wait'')]\<rparr>],
      iterations = 1, result_completed = False, result_error = Some ''HTTP status 500''\<rparr>"

definition second_request :: request where
  "second_request =
     \<lparr>req_model = ''computer-use-preview'', req_previous_response_id = Some ''resp_1'',
      req_tools =
        [\<lparr>tool_type = ''computer_use_preview'', tool_display_width = 1024,
          tool_display_height = 768, tool_environment = ''browser''\<rparr>],
      req_input =
        [CallOutput (Some ''call_1'') ''data:image/jpeg;base64,img'' (Some ''http://x'') None],
      req_reasoning_summary = None, req_truncation = ''auto''\<rparr>"

lemma run_waited_once:
  "fst (run_task env_second_request_fails (new_agent 50) ''task'' None []) = Inr waited_once"
  by code_simp

lemma posts_waited_once:
  "length (posts (snd (snd (run_task env_second_request_fails (new_agent 50) ''task'' None [])))) = 2 \<and>
   posts (snd (snd (run_task env_second_request_fails (new_agent 50) ''task'' None []))) ! 1 =
     Post second_request (HttpResponse 500 None)"
  by code_simp

theorem run_task_http_failure_witness:
  "fresh (state (new_agent 50)) \<and>
   length (posts (snd (snd (run_task env_second_request_fails (new_agent 50) ''task'' None [])))) = 2 \<and>
   posts (snd (snd (run_task env_second_request_fails (new_agent 50) ''task'' None []))) ! 1 =
     Post second_request (HttpResponse 500 None) \<and>
   \<not> is_success 500 \<and>
   fst (run_task env_second_request_fails (new_agent 50) ''task'' None []) = Inr waited_once \<and>
   \<not> result_completed waited_once \<and>
   result_error waited_once \<noteq> None \<and>
   length (result_screenshots waited_once) = 2 - 1 \<and>
   length (action_reports (snd (snd (run_task env_second_request_fails (new_agent 50) ''task'' None [])))) = 1 \<and>
   (\<exists>pre m. snd (snd (run_task env_second_request_fails (new_agent 50) ''task'' None [])) =
      pre @ [Post second_request (HttpResponse 500 None), Log (TaskFailed m) Status])"
  using run_task_http_failure [OF fresh_new_agent run_triple [OF refl], of 2
      env_second_request_fails 50 "''task''" None second_request 500 None]
    fresh_new_agent run_waited_once posts_waited_once
  by (simp add: waited_once_def is_success_def)

text \<open>
  The claim as stated, for every invocation, fails: \<^verbatim>\<open>run_task\<close> never resets
  \<^verbatim>\<open>self.state\<close>. After the run above, a second \<^verbatim>\<open>run_task\<close> on the same agent whose first
  request (\<open>k = 1\<close>) is answered with status 500 returns a history of one entry, the
  entry of the first run, and not of \<open>k - 1 = 0\<close> entries.
\<close>

theorem run_task_http_failure_counterexample:
  "fst (run_task env_unavailable
          (fst (snd (run_task env_second_request_fails (new_agent 50) ''task'' None [])))
          ''task'' None []) =
     Inr \<lparr>result = ''Error: HTTP status 500'',
          result_screenshots =
            [\<lparr>step = 1, screenshot = ''img'', action = Some [(''type'', PStr ''wait'')]\<rparr>],
          iterations = 1, result_completed = False, result_error = Some ''HTTP status 500''\<rparr> \<and>
   posts (snd (snd (run_task env_unavailable
          (fst (snd (run_task env_second_request_fails (new_agent 50) ''task'' None [])))
          ''task'' None []))) =
     [Post (initial_request (config (new_agent 50)) ''task'' ''img'') (HttpResponse 500 None)]"
  by code_simp

subsection \<open>C4: a first response without computer calls\<close>

lemma run_task_try_no_calls:
  assumes f: "fresh st" and n: "1 \<le> max_iterations cfg" and p: "posts tr = []"
    and x: "run_task_try env cfg task shot st tr = (x, st1, tr1)"
    and h: "posts tr1 = Post q (HttpResponse status (Some response)) # rest"
    and s: "is_success status"
    and c: "computer_calls_of (response_output response) = []"
  shows "x = None \<and>
         st1 = st\<lparr>previous_response_id := response_id response, iteration_count := 1,
                  completed := True\<rparr> \<and>
         rest = [] \<and> action_reports tr1 = action_reports tr \<and>
         last tr1 = Log TaskCompletedNoMoreActions Agent"
proof (cases "post_request env (initial_request cfg task shot) tr")
  case (Pair r0 tr0)
  let ?q = "initial_request cfg task shot"
  let ?reply = "http_post env tr ?q"
  from post_request_trace [OF Pair] have t: "tr0 = tr @ [Post ?q ?reply]" .
  with p have p0: "posts tr0 = [Post ?q ?reply]" by simp
  show ?thesis
  proof (cases r0)
    case (Inl e)
    with Pair x have "tr1 = tr0" by (simp add: run_task_try_def)
    with p0 h have "?reply = HttpResponse status (Some response)" by auto
    with post_request_Inl [OF Pair [unfolded Inl]] s show ?thesis by simp
  next
    case (Inr r)
    let ?st = "st\<lparr>previous_response_id := response_id r\<rparr>"
    from Inr Pair x have loop: "run_loop env cfg r ?st tr0 = (x, st1, tr1)"
      by (simp add: run_task_try_def)
    with run_loop_keeps [where env = env and cfg = cfg and response = r and st = ?st and tr = tr0]
    have "prefix tr0 tr1" by simp
    then obtain z where "tr1 = tr0 @ z" by (auto simp: prefix_def)
    then have "posts tr1 = posts tr0 @ posts z" by (simp add: posts_def)
    with p0 h have reply: "?reply = HttpResponse status (Some response)" by auto
    with post_request_Inr [OF Pair [unfolded Inr]] have r: "r = response" by simp
    obtain cs tr2 where po: "process_output (response_output response) [] tr0 = (cs, tr2)"
      by (cases "process_output (response_output response) [] tr0") auto
    from process_output_calls [of "response_output response" "[]" tr0] po c
    have cs: "cs = []" by simp
    from process_output_observed [of "response_output response" "[]" tr0] po
    have o: "observed tr2 = observed tr0" by simp
    from f n have go: "\<not> completed ?st" "iteration_count ?st < max_iterations cfg"
      by (simp_all add: fresh_def)
    from run_loop_step [OF go po [unfolded r [symmetric]], of env] loop cs f
    have res: "x = None"
      "st1 = st\<lparr>previous_response_id := response_id response, iteration_count := 1,
                completed := True\<rparr>"
      "tr1 = tr2 @ [Log TaskCompletedNoMoreActions Agent]"
      by (simp_all add: r send_log_def fresh_def)
    from o have "posts tr2 = posts tr0" "action_reports tr2 = action_reports tr0"
      by (simp_all add: posts_observed [of tr2] posts_observed [of tr0]
          action_reports_observed [of tr2] action_reports_observed [of tr0])
    with res(3) p0 h t have "rest = []" "action_reports tr1 = action_reports tr"
      by (simp_all add: posts_def action_reports_def)
    with res show ?thesis by simp
  qed
qed

text \<open>
  C4 (as amended). For a run of a new agent with \<open>max_iterations \<ge> 1\<close> in which the
  service answers the first request successfully with a response that contains no
  computer call: the loop ends in its first iteration. \<^verbatim>\<open>run_task\<close> returns
  \<open>completed = true\<close> with an empty history, \<open>iterations = 1\<close> and no error; it sends no
  other request, executes no action and its last log line is
  \<open>Task completed - no more actions\<close>.
\<close>

theorem run_task_no_calls:
  assumes "fresh (state self)"
    and "1 \<le> max_iterations (config self)"
    and "run_task env self task url [] = (res, self1, tr1)"
    and "posts tr1 = Post q (HttpResponse status (Some response)) # rest"
    and "is_success status"
    and "computer_calls_of (response_output response) = []"
  shows "res = Inr \<lparr>result = ''Task completed successfully'', result_screenshots = [],
                    iterations = 1, result_completed = True, result_error = None\<rparr> \<and>
         rest = [] \<and> action_reports tr1 = [] \<and>
         last tr1 = Log TaskCompletedNoMoreActions Agent"
  using assms(3)
proof (cases rule: run_task_cases)
  case (no_page e)
  with assms(4) show ?thesis by (simp add: posts_def)
next
  case (raised e)
  then have "observed tr1 = []" by simp
  from observed_empty_ok [OF this] assms(4) show ?thesis by simp
next
  case (returned shot tr2 st)
  from returned(2) have "observed tr2 = []" by simp
  note e = observed_empty_ok [OF this]
  from e have p: "posts tr2 = []" by simp
  from run_task_try_no_calls [OF assms(1,2) p returned(3) assms(4,5,6)] e returned(4) assms(1)
  show ?thesis by (simp add: loop_result_def fresh_def)
next
  case (failed shot tr2 st e tr3)
  from failed(2) have "observed tr2 = []" by simp
  from observed_empty_ok [OF this] have p: "posts tr2 = []" by simp
  from failed(6) assms(4) have "posts tr3 = Post q (HttpResponse status (Some response)) # rest"
    by (simp add: posts_def)
  from run_task_try_no_calls [OF assms(1,2) p failed(3) this assms(5,6)] show ?thesis by simp
qed

text \<open>The service answers the first request of a new agent without a computer call.\<close>

lemma run_done:
  "run_task env_done (new_agent 50) ''task'' None [] =
     (Inr \<lparr>result = ''Task completed successfully'', result_screenshots = [],
           iterations = 1, result_completed = True, result_error = None\<rparr>,
      (new_agent 50)\<lparr>state := (state (new_agent 50))
         \<lparr>previous_response_id := Some ''resp_1'', iteration_count := 1, completed := True\<rparr>\<rparr>,
      [Page (Screenshot ''jpeg''), Log (StartingTask ''task'') Agent,
       Post (initial_request (config (new_agent 50)) ''task'' ''img'') (reply_with []),
       Log TaskCompletedNoMoreActions Agent])"
  by code_simp

theorem run_task_no_calls_witness:
  "fresh (state (new_agent 50)) \<and> 1 \<le> max_iterations (config (new_agent 50)) \<and>
   posts (snd (snd (run_task env_done (new_agent 50) ''task'' None []))) =
     [Post (initial_request (config (new_agent 50)) ''task'' ''img'')
        (HttpResponse 200 (Some \<lparr>response_id = Some ''resp_1'', response_output = []\<rparr>))] \<and>
   is_success 200 \<and>
   computer_calls_of (response_output \<lparr>response_id = Some ''resp_1'', response_output = []\<rparr>) = [] \<and>
   fst (run_task env_done (new_agent 50) ''task'' None []) =
     Inr \<lparr>result = ''Task completed successfully'', result_screenshots = [],
          iterations = 1, result_completed = True, result_error = None\<rparr> \<and>
   action_reports (snd (snd (run_task env_done (new_agent 50) ''task'' None []))) = [] \<and>
   last (snd (snd (run_task env_done (new_agent 50) ''task'' None []))) =
     Log TaskCompletedNoMoreActions Agent"
  using run_task_no_calls [OF fresh_new_agent _ run_triple [OF refl], of 50 env_done "''task''" None
      "initial_request (config (new_agent 50)) ''task'' ''img''" 200
      "\<lparr>response_id = Some ''resp_1'', response_output = []\<rparr>" "[]"]
    fresh_new_agent
  by (simp add: max_iterations_new_agent run_done posts_def action_reports_def reply_with_def
      is_success_def)

text \<open>
  The claim as stated fails. With \<open>max_iterations = 0\<close> the loop never looks at the
  first response, and the run ends with \<open>completed = false\<close>. And \<^verbatim>\<open>run_task\<close> never
  resets \<^verbatim>\<open>self.state\<close>: on an agent whose earlier run used up its two iterations the
  loop is not entered either, and the result carries the two entries of the earlier
  run.
\<close>

theorem run_task_no_calls_counterexample:
  "fst (run_task env_done (new_agent 0) ''task'' None []) =
     Inr \<lparr>result = ''Task stopped after 0 iterations'', result_screenshots = [],
          iterations = 0, result_completed = False, result_error = None\<rparr> \<and>
   posts (snd (snd (run_task env_done (new_agent 0) ''task'' None []))) =
     [Post (initial_request (config (new_agent 0)) ''task'' ''img'') (reply_with [])] \<and>
   fst (run_task env_done
          (fst (snd (run_task env_always_wait (new_agent 2) ''task'' None []))) ''task'' None []) =
     Inr \<lparr>result = ''Task stopped after 2 iterations'',
          result_screenshots =
            [\<lparr>step = 1, screenshot = ''img'', action = Some [(''type'', PStr ''wait'')]\<rparr>,
             \<lparr>step = 2, screenshot = ''img'', action = Some [(''type'', PStr ''wait'')]\<rparr>],
          iterations = 2, result_completed = False, result_error = None\<rparr>"
  by code_simp

subsection \<open>C5: the navigation to the initial URL\<close>

text \<open>
  C5 (as amended). For a \<^verbatim>\<open>run_task\<close> with a non-empty \<^verbatim>\<open>initial_url\<close> on an agent whose
  page is initialised: the navigation is the first thing the run does, before the
  first screenshot. When it succeeds it is logged and the screenshot follows. When it
  fails it is fatal: the \<^verbatim>\<open>goto\<close> stands before the \<^verbatim>\<open>try\<close>, so that its exception
  leaves \<^verbatim>\<open>run_task\<close>, which logs nothing, captures nothing and returns no dictionary.
\<close>

theorem run_task_navigates_first:
  assumes "page (state self) \<noteq> None" and "u \<noteq> []"
  shows "case page_result env tr (Goto u) of
           Some e \<Rightarrow> run_task env self task (Some u) tr = (Inl e, self, tr @ [Page (Goto u)])
         | None \<Rightarrow>
             (\<exists>x self1 rest. run_task env self task (Some u) tr =
                (x, self1,
                 tr @ Page (Goto u) # Log (Navigated u) Agent # Page (Screenshot ''jpeg'') # rest))"
proof (cases "page_result env tr (Goto u)")
  case (Some e)
  with assms show ?thesis by (simp add: run_task_def goto_initial_url_def page_do_def)
next
  case None
  let ?tr1 = "tr @ [Page (Goto u), Log (Navigated u) Agent]"
  let ?tr2 = "?tr1 @ [Page (Screenshot ''jpeg'')]"
  from assms None have g: "goto_initial_url env (Some u) tr = (None, ?tr1)"
    by (simp add: goto_initial_url_def page_do_def send_log_def)
  have "\<exists>x self1 rest. run_task env self task (Some u) tr = (x, self1, ?tr2 @ rest)"
  proof (cases "page_result env ?tr1 (Screenshot ''jpeg'')")
    case (Some e)
    with assms have "capture_screenshot env (state self) ?tr1 =
        (Inl e, ?tr2 @ [Log (FailedToCapture (str e)) Status])"
      by (simp add: capture_screenshot_def page_do_def send_log_def)
    with assms g have "run_task env self task (Some u) tr =
        (Inl e, self, ?tr2 @ [Log (FailedToCapture (str e)) Status])"
      by (simp add: run_task_def)
    then show ?thesis by blast
  next
    case None
    let ?shot = "screenshot_data env ?tr1"
    let ?tr3 = "?tr2 @ [Log (StartingTask task) Agent]"
    from None assms have c: "capture_screenshot env (state self) ?tr1 = (Inr ?shot, ?tr2)"
      by (simp add: capture_screenshot_def page_do_def)
    obtain x st tr4 where t: "run_task_try env (config self) task ?shot (state self) ?tr3 =
        (x, st, tr4)"
      by (cases "run_task_try env (config self) task ?shot (state self) ?tr3") auto
    from run_task_try_keeps [OF t] obtain z where z: "tr4 = ?tr3 @ z"
      by (auto simp: prefix_def)
    show ?thesis
    proof (cases x)
      case None
      with assms g c t z have "run_task env self task (Some u) tr =
          (Inr (loop_result st), self\<lparr>state := st\<rparr>,
           ?tr2 @ Log (StartingTask task) Agent # z)"
        by (simp add: run_task_def send_log_def)
      then show ?thesis by blast
    next
      case (Some e)
      with assms g c t z have "run_task env self task (Some u) tr =
          (Inr (error_result st e), self\<lparr>state := st\<lparr>error := Some (str e)\<rparr>\<rparr>,
           ?tr2 @ Log (StartingTask task) Agent # z @ [Log (TaskFailed (str e)) Status])"
        by (simp add: run_task_def send_log_def)
      then show ?thesis by blast
    qed
  qed
  with None show ?thesis by simp
qed

text \<open>A run that starts at \<open>''http://x''\<close>, with a page that loads.\<close>

lemma goto_env_done: "page_result env_done [] (Goto ''http://x'') = None"
  by (simp add: env_done_def service_def)

theorem run_task_navigates_first_witness:
  "page (state (new_agent 50)) \<noteq> None \<and> ''http://x'' \<noteq> [] \<and>
   page_result env_done [] (Goto ''http://x'') = None \<and>
   (\<exists>x self1 rest. run_task env_done (new_agent 50) ''task'' (Some ''http://x'') [] =
      (x, self1,
       [] @ Page (Goto ''http://x'') # Log (Navigated ''http://x'') Agent #
         Page (Screenshot ''jpeg'') # rest))"
  using run_task_navigates_first [where self = "new_agent 50" and u = "''http://x''"
      and env = env_done and tr = "[]" and task = "''task''"]
    page_new_agent [of 50]
  by (simp add: goto_env_done)

text \<open>
  The claim as stated fails: a navigation failure is not logged and it is fatal. When
  the page cannot be loaded, \<^verbatim>\<open>run_task\<close> raises the exception of \<^verbatim>\<open>goto\<close> to its caller;
  the only thing it has done is the \<^verbatim>\<open>goto\<close>.
\<close>

theorem run_task_navigates_first_counterexample:
  "run_task env_no_network (new_agent 50) ''task'' (Some ''http://x'') [] =
     (Inl (Exn PlaywrightError ''net::ERR_NAME_NOT_RESOLVED''), new_agent 50,
      [Page (Goto ''http://x'')])"
  by code_simp

subsection \<open>C6: pending safety checks\<close>

text \<open>
  The request that follows a computer call never carries the key
  \<^verbatim>\<open>acknowledged_safety_checks\<close>, whatever the call's pending checks are.
\<close>

lemma call_output_request_acknowledges_nothing:
  "map acknowledged_safety_checks (req_input (call_output_request cfg st c shot url)) = [None]"
  by (simp add: call_output_request_def)

text \<open>
  C6. A computer call with pending safety checks: each check is logged and the action
  is executed, but the checks are not passed back to the service. In the run below the
  first response asks for a \<^verbatim>\<open>wait\<close> with one pending check; \<^verbatim>\<open>run_task\<close> logs the
  check, waits, captures the screenshot and sends it back in a
  \<^verbatim>\<open>computer_call_output\<close> without \<^verbatim>\<open>acknowledged_safety_checks\<close> (the last field of
  \<open>CallOutput\<close> is \<open>None\<close>).
\<close>

theorem run_task_safety_checks_not_passed_back:
  "run_task env_safety_check (new_agent 50) ''task'' None [] =
     (Inr \<lparr>result = ''Task completed successfully'',
           result_screenshots =
             [\<lparr>step = 1, screenshot = ''img'', action = Some [(''type'', PStr ''wait'')]\<rparr>],
           iterations = 2, result_completed = True, result_error = None\<rparr>,
      (new_agent 50)\<lparr>state := (state (new_agent 50))
         \<lparr>previous_response_id := Some ''resp_1'',
          screenshots :=
            [\<lparr>step = 1, screenshot = ''img'', action = Some [(''type'', PStr ''wait'')]\<rparr>],
          completed := True, iteration_count := 2\<rparr>\<rparr>,
      [Page (Screenshot ''jpeg''), Log (StartingTask ''task'') Agent,
       Post (initial_request (config (new_agent 50)) ''task'' ''img'')
         (reply_with
            [\<lparr>call_id = Some ''call_1'', call_action = Some [(''type'', PStr ''wait'')],
              pending_safety_checks =
                [\<lparr>check_id = Some ''sc_1'', check_code = Some ''malicious_instructions'',
                  message = Some ''Check the page''\<rparr>]\<rparr>]),
       Log (SafetyCheck ''Check the page'') Status, Sleep 2000, Log Waited Agent,
       Sleep 1000, Page (Screenshot ''jpeg''),
       Post
         \<lparr>req_model = ''computer-use-preview'', req_previous_response_id = Some ''resp_1'',
          req_tools =
            [\<lparr>tool_type = ''computer_use_preview'', tool_display_width = 1024,
              tool_display_height = 768, tool_environment = ''browser''\<rparr>],
          req_input =
            [CallOutput (Some ''call_1'') ''data:image/jpeg;base64,img'' (Some ''http://x'') None],
          req_reasoning_summary = None, req_truncation = ''auto''\<rparr>
         (reply_with []),
       Log TaskCompletedNoMoreActions Agent])"
  by code_simp

subsection \<open>C7: an action of unknown type\<close>








text \<open>In a whole run: the \<^verbatim>\<open>hover\<close> gives an observation, and the next response ends the task.\<close>

lemma run_hover_then_done:
  "fst (run_task env_hover_then_done (new_agent 50) ''task'' None []) =
     Inr \<lparr>result = ''Task completed successfully'',
          result_screenshots =
            [\<lparr>step = 1, screenshot = ''img'', action = Some [(''type'', PStr ''hover'')]\<rparr>],
          iterations = 2, result_completed = True, result_error = None\<rparr>"
  by code_simp


subsection \<open>C8: running out of iterations is not an error\<close>

text \<open>
  C8 (as amended). For a run of a new agent that returns a dictionary with
  \<open>completed = false\<close> and in which no exception was caught (the \<^verbatim>\<open>except\<close> clause logs
  \<open>Task failed\<close>): the error field is \<open>None\<close>, the result text is
  \<open>Task stopped after n iterations\<close> with \<open>n\<close> the \<open>iterations\<close> field, and \<open>n\<close> has
  reached \<open>max_iterations\<close> (it equals \<open>max_iterations\<close> when that is not negative).
\<close>

theorem run_task_exhausted:
  assumes "fresh (state self)"
    and "run_task env self task url [] = (Inr r, self1, tr1)"
    and "\<not> result_completed r"
    and "\<not> list_ex is_task_failed tr1"
  shows "result_error r = None \<and>
         result r = ''Task stopped after '' @ str_int (iterations r) @ '' iterations'' \<and>
         max_iterations (config self) \<le> iterations r \<and>
         (0 \<le> max_iterations (config self) \<longrightarrow> iterations r = max_iterations (config self))"
proof -
  from run_task_fresh [OF assms(1,2)] obtain x st tr3 where
    post: "loop_post (config self) x st tr3" and err: "error st = None"
    and res: "case x of
       None \<Rightarrow> r = loop_result st \<and> tr1 = tr3
     | Some e \<Rightarrow> r = error_result st e \<and> tr1 = tr3 @ [Log (TaskFailed (str e)) Status]"
    by blast
  show ?thesis
  proof (cases x)
    case None
    with res have r: "r = loop_result st" by simp
    from post None assms(3) r have "consistent (config self) st tr3"
      and "max_iterations (config self) \<le> iteration_count st" and "\<not> completed st"
      by (simp_all add: loop_post_def)
    with err show ?thesis
      by (auto simp: r loop_result_def consistent_def bounded_def)
  next
    case (Some e)
    with res assms(4) show ?thesis by simp
  qed
qed

text \<open>With \<open>max_iterations = 2\<close> and a service that always asks for a \<^verbatim>\<open>wait\<close>.\<close>

definition two_waits :: task_result where
  "two_waits =
     \<lparr>result = ''Task stopped after 2 iterations'',
      result_screenshots =
        [\<lparr>step = 1, screenshot = ''img'', action = Some [(''type'', PStr ''wait'')]\<rparr>,
         \<lparr>step = 2, screenshot = ''img'', action = Some [(''type'', PStr ''wait'')]\<rparr>],
      iterations = 2, result_completed = False, result_error = None\<rparr>"

lemma run_two_waits: "fst (run_task env_always_wait (new_agent 2) ''task'' None []) = Inr two_waits"
  by code_simp

lemma run_two_waits_no_failure:
  "\<not> list_ex is_task_failed (snd (snd (run_task env_always_wait (new_agent 2) ''task'' None [])))"
  by code_simp

theorem run_task_exhausted_witness:
  "fresh (state (new_agent 2)) \<and>
   fst (run_task env_always_wait (new_agent 2) ''task'' None []) = Inr two_waits \<and>
   \<not> result_completed two_waits \<and>
   \<not> list_ex is_task_failed (snd (snd (run_task env_always_wait (new_agent 2) ''task'' None []))) \<and>
   result_error two_waits = None \<and>
   result two_waits = ''Task stopped after '' @ str_int (iterations two_waits) @ '' iterations'' \<and>
   iterations two_waits = max_iterations (config (new_agent 2))"
  using run_task_exhausted [OF fresh_new_agent run_triple [OF run_two_waits] _ run_two_waits_no_failure]
    fresh_new_agent run_two_waits run_two_waits_no_failure
  by (simp add: max_iterations_new_agent two_waits_def)

text \<open>
  The claim as stated fails: a run can reach \<open>iterations = max_iterations\<close> without
  completion and still report an error. With \<open>max_iterations = 1\<close> and a click that
  raises, the exception is caught in the first and last iteration. And since
  \<^verbatim>\<open>run_task\<close> never resets \<^verbatim>\<open>self.state\<close>, a run that does run out of iterations on an
  agent whose earlier run failed returns the error of the earlier run.
\<close>

theorem run_task_exhausted_counterexample:
  "max_iterations (config (new_agent 1)) = 1 \<and>
   fst (run_task env_click_raises (new_agent 1) ''task'' None []) =
     Inr \<lparr>result = ''Error: Timeout 30000ms exceeded'', result_screenshots = [],
          iterations = 1, result_completed = False,
          result_error = Some ''Timeout 30000ms exceeded''\<rparr> \<and>
   fst (run_task env_always_wait
          (fst (snd (run_task env_unavailable (new_agent 1) ''task'' None []))) ''task'' None []) =
     Inr \<lparr>result = ''Task stopped after 1 iterations'',
          result_screenshots =
            [\<lparr>step = 1, screenshot = ''img'', action = Some [(''type'', PStr ''wait'')]\<rparr>],
          iterations = 1, result_completed = False, result_error = Some ''HTTP status 500''\<rparr>"
  by code_simp

subsection \<open>C9: a completed run reports no error\<close>

text \<open>
  C9 (as amended). In every dictionary that \<^verbatim>\<open>run_task\<close> returns for an agent whose
  state holds no error when the run starts (the state \<^verbatim>\<open>__init__\<close> builds),
  \<open>completed = true\<close> implies that the error field is \<open>None\<close>: within one run only the
  \<^verbatim>\<open>except\<close> clause sets an error, and it returns \<open>completed = false\<close>.
\<close>

theorem run_task_completed_no_error:
  assumes "error (state self) = None"
    and "run_task env self task url tr = (Inr r, self1, tr1)"
    and "result_completed r"
  shows "result_error r = None"
  using assms(2)
proof (cases rule: run_task_cases)
  case (returned shot tr2 st)
  from run_task_try_keeps [OF returned(3)] assms(1) returned(4) show ?thesis by simp
next
  case (failed shot tr2 st e tr3)
  with assms(3) show ?thesis by simp
qed simp_all

definition one_click :: task_result where
  "one_click =
     \<lparr>result = ''Task completed successfully'',
      result_screenshots =
        [\<lparr>step = 1, screenshot = ''img'',
          action = Some [(''type'', PStr ''click''), (''x'', PInt 100), (''y'', PInt 200)]\<rparr>],
      iterations = 2, result_completed = True, result_error = None\<rparr>"

lemma run_click_then_done:
  "fst (run_task env_click_then_done (new_agent 50) ''task'' None []) = Inr one_click"
  by code_simp

theorem run_task_completed_no_error_witness:
  "error (state (new_agent 50)) = None \<and>
   fst (run_task env_click_then_done (new_agent 50) ''task'' None []) = Inr one_click \<and>
   result_completed one_click \<and> result_error one_click = None"
  using run_task_completed_no_error [OF _ run_triple [OF run_click_then_done]]
    fresh_new_agent [of 50] run_click_then_done
  by (simp add: fresh_def one_click_def)

text \<open>
  The claim as stated, for every returned dictionary, fails: \<^verbatim>\<open>run_task\<close> never resets
  \<^verbatim>\<open>self.state\<close>, and the normal return reads \<^verbatim>\<open>self.state.error\<close>. A first run whose
  request is answered with status 500 stores the error in the state; a second
  \<^verbatim>\<open>run_task\<close> on the same agent, answered without computer calls, returns
  \<open>completed = true\<close> together with the error of the first run.
\<close>

theorem run_task_completed_no_error_counterexample:
  "fst (run_task env_unavailable (new_agent 50) ''task'' None []) =
     Inr \<lparr>result = ''Error: HTTP status 500'', result_screenshots = [], iterations = 0,
          result_completed = False, result_error = Some ''HTTP status 500''\<rparr> \<and>
   fst (run_task env_done
          (fst (snd (run_task env_unavailable (new_agent 50) ''task'' None []))) ''task'' None []) =
     Inr \<lparr>result = ''Task completed successfully'', result_screenshots = [], iterations = 1,
          result_completed = True, result_error = Some ''HTTP status 500''\<rparr>"
  by code_simp

subsection \<open>C10: missing parameters\<close>


text \<open>The same for \<^verbatim>\<open>handle_computer_action\<close> of \<^verbatim>\<open>openai_cua.py\<close>.\<close>

definition handle_computer_action_defaults :: "(string \<times> pval) list" where
  "handle_computer_action_defaults =
     [(''x'', PInt 0), (''y'', PInt 0), (''button'', PStr ''left''), (''text'', PStr []),
      (''scroll_x'', PInt 0), (''scroll_y'', PInt 0), (''keys'', PKeys []),
      (''ms'', PInt 1000), (''path'', PPath [])]"

lemma get_default_added:
  "map_of a k = None \<Longrightarrow> get (a @ [(k, d)]) k' d' = (if k' = k then d else get a k' d')"
  by (auto simp: get_def map_add_def split: option.splits)

lemma get_absent: "map_of a k = None \<Longrightarrow> get a k d = d"
  by (simp add: get_def)




text \<open>
  A click without coordinates and button, a scroll without coordinates and distances,
  a \<^verbatim>\<open>type\<close> without text and a \<^verbatim>\<open>keypress\<close> without keys, on a page that never fails.
\<close>

lemma execute_action_without_parameters:
  "execute_action env_done (state (new_agent 1)) [(''type'', PStr ''click'')] [] =
     (None, [Page (MouseClick (PInt 0) (PInt 0) (PStr ''left'')),
             Log (Clicked (PInt 0) (PInt 0) (PStr ''left'')) Agent]) \<and>
   execute_action env_done (state (new_agent 1)) [(''type'', PStr ''scroll'')] [] =
     (None, [Page (MouseMove (PInt 0) (PInt 0)), Page (ScrollBy (PInt 0) (PInt 0)),
             Log (Scrolled (PInt 0) (PInt 0) (PInt 0) (PInt 0)) Agent]) \<and>
   execute_action env_done (state (new_agent 1)) [(''type'', PStr ''type'')] [] =
     (None, [Page (KeyboardType (PStr [])), Log (Typed (PStr []) False) Agent]) \<and>
   execute_action env_done (state (new_agent 1)) [(''type'', PStr ''keypress'')] [] =
     (None, [Log (PressedKeys []) Agent])"
  by code_simp


text \<open>The executor of \<^verbatim>\<open>openai_cua.py\<close> treats its parameters in the same way.\<close>

lemma handle_computer_action_gets:
  assumes "(k, d) \<in> set handle_computer_action_defaults" and "map_of a k = None"
  shows "get (a @ [(k, d)]) ''type'' PNone = get a ''type'' PNone"
    and "get (a @ [(k, d)]) ''x'' (PInt 0) = get a ''x'' (PInt 0)"
    and "get (a @ [(k, d)]) ''y'' (PInt 0) = get a ''y'' (PInt 0)"
    and "get (a @ [(k, d)]) ''button'' (PStr ''left'') = get a ''button'' (PStr ''left'')"
    and "get (a @ [(k, d)]) ''text'' (PStr []) = get a ''text'' (PStr [])"
    and "get (a @ [(k, d)]) ''scroll_x'' (PInt 0) = get a ''scroll_x'' (PInt 0)"
    and "get (a @ [(k, d)]) ''scroll_y'' (PInt 0) = get a ''scroll_y'' (PInt 0)"
    and "get (a @ [(k, d)]) ''keys'' (PKeys []) = get a ''keys'' (PKeys [])"
    and "get (a @ [(k, d)]) ''ms'' (PInt 1000) = get a ''ms'' (PInt 1000)"
    and "get (a @ [(k, d)]) ''path'' (PPath []) = get a ''path'' (PPath [])"
  using assms
  by (auto simp: handle_computer_action_defaults_def get_default_added get_absent)

lemma handle_computer_action_default:
  assumes "(k, d) \<in> set handle_computer_action_defaults" and "map_of a k = None"
  shows "handle_computer_action env (a @ [(k, d)]) tr = handle_computer_action env a tr"
  unfolding handle_computer_action_def handle_computer_action_gets [OF assms]
  by (rule refl)

end
